theory Spec2Isabelle
  imports Main "HOL-Library.Char_ord" "HOL-Library.List_Lexorder" "HOL-Library.Sublist"
begin

section \<open>server\_init: the task execution engine of main.py\<close>

text \<open>
  A shallow embedding of the workflow driver of \<^verbatim>\<open>src/main.py\<close>: the task registry
  and its ordering, the execution safety policy, completion markers, the run journal,
  the command runner and the task loop of \<^verbatim>\<open>main\<close>.

  Conventions.
  \<^item> A Python \<^verbatim>\<open>str\<close> is a \<^typ>\<open>string\<close>; the text handled here (task keys, flags,
    answers typed at a prompt) is ASCII.
  \<^item> A \<^verbatim>\<open>pathlib.Path\<close> is the text of the path; \<^verbatim>\<open>p / name\<close> appends a
    separator and the name.
  \<^item> An exception is a value of \<open>error\<close>; a function that can raise returns
    \<open>error + 'a\<close>.
  \<^item> The file store, standard input and everything observable a run does (printing,
    calling a task body, writing a file) are fields of the record \<open>world\<close>, passed
    through every function that has an effect.
\<close>

subsection \<open>Errors\<close>

datatype error =
    SystemExit string
  | RuntimeError string
  | IndexError
  | ValueError
  | KeyError
  | EOFError
  | UnicodeDecodeError

subsection \<open>Data definitions (lines 58--125)\<close>

definition ROOT :: string where "ROOT = ''root''"
definition EXISTING_USER :: string where "EXISTING_USER = ''user''"
definition LOCAL :: string where "LOCAL = ''local''"

definition CONTEXT_VALUE_BY_INDEX :: "nat \<Rightarrow> string option" where
  "CONTEXT_VALUE_BY_INDEX i =
     (if i = 0 then Some ROOT else if i = 1 then Some EXISTING_USER
      else if i = 2 then Some LOCAL else None)"

record TaskDefinition =
  key :: string
  title :: string
  description :: string

definition TASKS :: "TaskDefinition list" where
  "TASKS =
    [\<lparr>key = ''os'', title = ''OS settings (hostname + user)'',
        description = ''Manage hostname and users''\<rparr>,
     \<lparr>key = ''ssh'', title = ''SSH setup'',
        description = ''Populate authorised keys and secure SSH''\<rparr>,
     \<lparr>key = ''zsh'', title = ''Customized zsh'',
        description = ''Install zsh, plugins, and dotfiles''\<rparr>,
     \<lparr>key = ''conda'', title = ''Miniconda'',
        description = ''Install Miniconda and base environment''\<rparr>,
     \<lparr>key = ''git'', title = ''Git setup'',
        description = ''Configure git identity''\<rparr>]"

text \<open>\<^verbatim>\<open>ordered_keys.index(key)\<close>: the first position of a value, \<^verbatim>\<open>ValueError\<close>
  when it does not occur.\<close>

fun list_index :: "'a list \<Rightarrow> 'a \<Rightarrow> error + nat" where
  "list_index [] x = Inl ValueError"
| "list_index (y # ys) x =
     (if y = x then Inr 0
      else (case list_index ys x of Inl e \<Rightarrow> Inl e | Inr n \<Rightarrow> Inr (Suc n)))"

text \<open>\<^verbatim>\<open>TASK_INDEX_BY_KEY = {task.key: idx for idx, task in enumerate(TASKS)}\<close>,
  as a lookup that is \<open>None\<close> off the registry.\<close>

definition TASK_INDEX_BY_KEY :: "string \<Rightarrow> int option" where
  "TASK_INDEX_BY_KEY k =
     map_of (zip (map key TASKS) (map int [0 ..< length TASKS])) k"

text \<open>\<^verbatim>\<open>DEFAULTS_BY_CONTEXT.get(context, [])\<close> (lines 97--101, 184--185).\<close>

definition defaults_for_context :: "string \<Rightarrow> int list" where
  "defaults_for_context context =
     (if context = ROOT then [0, 1, 2, 3]
      else if context = EXISTING_USER then [1, 2, 3]
      else if context = LOCAL then [2, 3]
      else [])"

record ExecutionOptions =
  dry_run :: bool
  sudo_allowed :: bool
  force :: bool
  auto_confirm :: bool

text \<open>The parsed command line (\<^verbatim>\<open>argparse.Namespace\<close>, lines 736--776). An option that
  was not given is \<open>None\<close>; a switch is a boolean.\<close>

record Namespace =
  args_context :: "string option"
  args_tasks :: "string option"
  args_yes :: bool
  args_dry_run :: bool
  args_force :: bool
  args_log_file :: "string option"
  args_no_menu :: bool
  args_resume_state :: "string option"
  args_write_state :: "string option"

subsection \<open>Sequences and comprehensions that can raise\<close>

text \<open>A comprehension whose element expression can raise: the first error, from left
  to right, ends it.\<close>

fun traverse :: "('a \<Rightarrow> error + 'b) \<Rightarrow> 'a list \<Rightarrow> error + 'b list" where
  "traverse f [] = Inr []"
| "traverse f (x # xs) =
     (case f x of
        Inl e \<Rightarrow> Inl e
      | Inr y \<Rightarrow> (case traverse f xs of Inl e \<Rightarrow> Inl e | Inr ys \<Rightarrow> Inr (y # ys)))"

text \<open>\<^verbatim>\<open>xs[i]\<close> on a tuple or list: a negative index counts from the end, an index out
  of range raises \<^verbatim>\<open>IndexError\<close>.\<close>

definition py_index :: "'a list \<Rightarrow> int \<Rightarrow> error + 'a" where
  "py_index xs i =
     (if 0 \<le> i \<and> i < int (length xs) then Inr (xs ! nat i)
      else if - int (length xs) \<le> i \<and> i < 0 then Inr (xs ! nat (int (length xs) + i))
      else Inl IndexError)"

text \<open>The position in the registry that an index denotes when it is in range.\<close>

definition py_pos :: "int \<Rightarrow> nat" where
  "py_pos i = nat (if i < 0 then int (length TASKS) + i else i)"

subsection \<open>Task ordering and context rules (lines 188--199)\<close>

definition order_tasks_from_indices :: "int list \<Rightarrow> error + TaskDefinition list" where
  "order_tasks_from_indices indices =
     (let ordered_keys = map key TASKS in
      case traverse (\<lambda>i. map_sum id key (py_index TASKS i)) indices of
        Inl e \<Rightarrow> Inl e
      | Inr selected_keys \<Rightarrow>
          traverse
            (\<lambda>k. case list_index ordered_keys k of
                    Inl e \<Rightarrow> Inl e
                  | Inr n \<Rightarrow> py_index TASKS (int n))
            (filter (\<lambda>k. k \<in> set selected_keys) ordered_keys))"

definition should_skip :: "string \<Rightarrow> string \<Rightarrow> bool" where
  "should_skip task_key context =
     (if context = EXISTING_USER \<and> task_key = ''os'' then True
      else if context = LOCAL \<and> task_key = ''ssh'' then True
      else False)"

subsection \<open>Strings\<close>

text \<open>\<^verbatim>\<open>str.isspace\<close> on ASCII: space, tab, line feed, vertical tab, form feed,
  carriage return and the separators 0x1C to 0x1F.\<close>

definition py_isspace :: "char \<Rightarrow> bool" where
  "py_isspace c =
     (let n = (of_char c :: nat) in n = 32 \<or> (9 \<le> n \<and> n \<le> 13) \<or> (28 \<le> n \<and> n \<le> 31))"

definition py_strip :: "string \<Rightarrow> string" where
  "py_strip s = rev (dropWhile py_isspace (rev (dropWhile py_isspace s)))"

text \<open>\<^verbatim>\<open>str.lower\<close> on ASCII: the letters A to Z move to a to z.\<close>

definition py_lower :: "string \<Rightarrow> string" where
  "py_lower s =
     map (\<lambda>c. let n = (of_char c :: nat) in
                if 65 \<le> n \<and> n \<le> 90 then char_of (n + 32) else c) s"

text \<open>\<^verbatim>\<open>s.split(sep)\<close> for a separator of one character: always at least one field.\<close>

fun py_split :: "char \<Rightarrow> string \<Rightarrow> string list" where
  "py_split sep [] = [[]]"
| "py_split sep (c # cs) =
     (if c = sep then [] # py_split sep cs
      else (case py_split sep cs of
              [] \<Rightarrow> [[c]]
            | f # fs \<Rightarrow> (c # f) # fs))"

text \<open>\<^verbatim>\<open>sep.join(xs)\<close>.\<close>

fun py_join :: "string \<Rightarrow> string list \<Rightarrow> string" where
  "py_join sep [] = []"
| "py_join sep [x] = x"
| "py_join sep (x # y # ys) = x @ sep @ py_join sep (y # ys)"

text \<open>\<^verbatim>\<open>repr\<close> of an ASCII text: in single quotes, or in double quotes when it holds
  a single quote and no double quote; the quote in use and the backslash are escaped,
  tab, line feed and carriage return are written \<^verbatim>\<open>\t\<close>, \<^verbatim>\<open>\n\<close>, \<^verbatim>\<open>\r\<close>, any other
  control character as \<^verbatim>\<open>\xhh\<close>.\<close>

definition hex_digit :: "nat \<Rightarrow> char" where
  "hex_digit n = (if n < 10 then char_of (48 + n) else char_of (87 + n))"

definition py_repr :: "string \<Rightarrow> string" where
  "py_repr s =
     (let q = (if CHR 0x27 \<in> set s \<and> CHR 0x22 \<notin> set s then CHR 0x22 else CHR 0x27)
      in [q]
         @ concat (map (\<lambda>c. let n = (of_char c :: nat) in
                        if c = q \<or> c = CHR 0x5C then [CHR 0x5C, c]
                        else if n = 9 then [CHR 0x5C, CHR ''t'']
                        else if n = 10 then [CHR 0x5C, CHR ''n'']
                        else if n = 13 then [CHR 0x5C, CHR ''r'']
                        else if n < 32 \<or> n = 127
                          then [CHR 0x5C, CHR ''x'', hex_digit (n div 16), hex_digit (n mod 16)]
                        else [c]) s)
         @ [q])"

text \<open>\<^verbatim>\<open>str\<close> of a list of texts.\<close>

definition py_str_list :: "string list \<Rightarrow> string" where
  "py_str_list xs = ''['' @ py_join '', '' (map py_repr xs) @ '']''"

text \<open>\<^verbatim>\<open>p / name\<close> on paths.\<close>

definition path_join :: "string \<Rightarrow> string \<Rightarrow> string" where
  "path_join p name = p @ ''/'' @ name"

subsection \<open>The world a run acts on\<close>

text \<open>
  The run journal is a \<^verbatim>\<open>dict[str, bool]\<close> (the annotation of \<^verbatim>\<open>load_state\<close> and
  \<^verbatim>\<open>save_state\<close>): a map from task keys to booleans.

  A regular file is known by what reading it gives:
  \<^item> \<open>Undecodable\<close>: its bytes are not UTF-8, so \<^verbatim>\<open>read_text(encoding="utf-8")\<close>
    raises \<^verbatim>\<open>UnicodeDecodeError\<close>;
  \<^item> \<open>NotJson s\<close>: the text \<open>s\<close>, which is not a JSON document, so \<^verbatim>\<open>json.loads\<close>
    raises \<^verbatim>\<open>JSONDecodeError\<close> (a completion marker holds a timestamp, which is such
    a text);
  \<^item> \<open>JournalJson j\<close>: a JSON object of booleans, the serialisation of the journal \<open>j\<close>.
  Directories, permissions and input/output failures are not part of the model: a path
  names a regular file or nothing. A JSON document that is not an object of booleans is
  outside the annotated type of the journal and is not represented.
\<close>

type_synonym journal = "string \<Rightarrow> bool option"

datatype content =
    Undecodable
  | NotJson string
  | JournalJson journal

text \<open>What a run does that can be observed from outside, in the order it happens:
  a call of \<^verbatim>\<open>print\<close> by the driver or one of the functions modelled here, with
  its text; the call of the body of a task; the writing of a marker file (path and
  content); the saving of the journal (path and journal); the closing of the command
  log. Not recorded: the prompt that \<^verbatim>\<open>input\<close> shows, and what a task body prints
  itself. The command log is not a file of the store \<open>fs\<close>: it is created by
  \<^verbatim>\<open>prepare_logger\<close>, written by the command runner (see \<open>effect\<close> below) and
  read by nothing in the program.\<close>

datatype event =
    Print string
  | Invoke string
  | WriteMarker string string
  | WriteJournal string journal
  | CloseLog

record world =
  fs :: "string \<Rightarrow> content option"
  stdin :: "string list"
  trace :: "event list"

definition emit :: "event \<Rightarrow> world \<Rightarrow> world" where
  "emit e w = w\<lparr>trace := trace w @ [e]\<rparr>"

text \<open>\<^verbatim>\<open>print(text)\<close>.\<close>

definition print :: "string \<Rightarrow> world \<Rightarrow> world" where
  "print text w = emit (Print text) w"

text \<open>\<^verbatim>\<open>path.write_text(...)\<close>: the file holds the new content afterwards.\<close>

definition write_file :: "string \<Rightarrow> content \<Rightarrow> world \<Rightarrow> world" where
  "write_file path c w = w\<lparr>fs := (fs w)(path \<mapsto> c)\<rparr>"

text \<open>
  What lies outside the program and does not change during a run: the answers of the
  terminal menus (\<open>None\<close> when the operator aborts); the clock, as
  \<^verbatim>\<open>isoformat\<close> gives it for a marker (\<open>now\<close>) and as the name of a log file
  shows it (\<open>log_stamp\<close>); the home directory and the name of the current user; the
  current directory; the operating system, its version and the machine, as
  \<^verbatim>\<open>platform\<close> reports them; and, for each task body, how its run ends (see
  \<open>body_end\<close>).

  A journal is a map and does not record the order in which a \<^verbatim>\<open>dict\<close> lists its
  keys. For the state loaded from the state file this order, the order of the
  document, is given by \<open>state_keys\<close>; it is used for the printed summary only.
\<close>

datatype body_end =
    Raises error
  | ReturnsEarly
  | RunsToEnd

record env =
  menu_context :: "nat option"
  menu_tasks :: "int list option"
  now :: string
  log_stamp :: string
  user_home :: string
  current_user :: string
  current_dir :: string
  os_name :: string
  os_version :: string
  machine :: string
  state_keys :: "string list"
  body :: "string \<Rightarrow> body_end"

subsection \<open>Completion markers (lines 127--145)\<close>

record PathsConfig =
  home_dir :: string
  ssh_authorized_keys :: string
  zshrc :: string
  p10k :: string
  data_dirs :: "string list"

definition MARKER_DIR_NAME :: string where
  "MARKER_DIR_NAME = ''.server_init_markers''"

definition task_marker :: "PathsConfig \<Rightarrow> string \<Rightarrow> string" where
  "task_marker paths k = path_join (path_join (home_dir paths) MARKER_DIR_NAME) (k @ ''.done'')"

definition is_task_marked_complete :: "PathsConfig \<Rightarrow> string \<Rightarrow> world \<Rightarrow> bool" where
  "is_task_marked_complete paths k w = (fs w (task_marker paths k) \<noteq> None)"

definition mark_task_complete ::
  "env \<Rightarrow> PathsConfig \<Rightarrow> string \<Rightarrow> ExecutionOptions \<Rightarrow> world \<Rightarrow> world" where
  "mark_task_complete ev paths k options w =
     (let marker = task_marker paths k in
      if dry_run options then
        print (''(dry-run) Would record completion marker at '' @ marker @ ''.'') w
      else
        print (''Recorded completion marker at '' @ marker @ ''.'')
          (emit (WriteMarker marker (now ev))
            (write_file marker (NotJson (now ev)) w)))"

subsection \<open>Prompts (lines 161--181)\<close>

text \<open>
  The loop of \<^verbatim>\<open>prompt_yes_no\<close> over the lines still to be read from standard input;
  \<^verbatim>\<open>input\<close> raises \<^verbatim>\<open>EOFError\<close> when none is left, and the loop then prints an
  empty line. It returns the answer, the lines left and what it printed.
\<close>

fun prompt_loop :: "bool \<Rightarrow> string list \<Rightarrow> bool \<times> string list \<times> string list" where
  "prompt_loop dflt [] = (dflt, [], [[]])"
| "prompt_loop dflt (line # rest) =
     (let answer = py_lower (py_strip line) in
      if answer = [] then (dflt, rest, [])
      else if answer = ''y'' \<or> answer = ''yes'' then (True, rest, [])
      else if answer = ''n'' \<or> answer = ''no'' then (False, rest, [])
      else (case prompt_loop dflt rest of
              (a, rest', printed) \<Rightarrow> (a, rest', ''Please answer yes or no.'' # printed)))"

definition prompt_yes_no :: "string \<Rightarrow> bool \<Rightarrow> bool \<Rightarrow> world \<Rightarrow> bool \<times> world" where
  "prompt_yes_no message dflt auto_confirm' w =
     (if auto_confirm' then (True, w)
      else (case prompt_loop dflt (stdin w) of
              (a, rest, printed) \<Rightarrow>
                (a, w\<lparr>stdin := rest, trace := trace w @ map Print printed\<rparr>)))"

subsection \<open>Execution safety policy (lines 842--860)\<close>

definition ensure_command_execution_safety ::
  "Namespace \<Rightarrow> world \<Rightarrow> ExecutionOptions \<times> world" where
  "ensure_command_execution_safety args w =
     (let dry_run' = (args_dry_run args \<or> \<not> args_force args);
          w1 = (if args_force args \<and> args_dry_run args
                then print ''--force provided together with --dry-run; commands will still not execute.'' w
                else w);
          w2 = (if \<not> args_force args \<and> \<not> args_dry_run args
                then print ''Commands will run in dry-run mode until --force is supplied.'' w1
                else w1)
      in case prompt_yes_no ''Use elevated privileges for privileged operations?''
                False (args_yes args) w2 of
           (sudo_allowed', w3) \<Rightarrow>
             (\<lparr>dry_run = dry_run', sudo_allowed = sudo_allowed',
               force = args_force args, auto_confirm = args_yes args\<rparr>, w3))"

subsection \<open>State management (lines 782--795)\<close>

definition load_state :: "string option \<Rightarrow> world \<Rightarrow> (error + journal) \<times> world" where
  "load_state path w =
     (case path of
        None \<Rightarrow> (Inr Map.empty, w)
      | Some p \<Rightarrow>
          (case fs w p of
             None \<Rightarrow> (Inr Map.empty, w)
           | Some Undecodable \<Rightarrow> (Inl UnicodeDecodeError, w)
           | Some (NotJson s) \<Rightarrow>
               (Inr Map.empty,
                print (''Failed to parse state file at '' @ p @ ''; starting fresh.'') w)
           | Some (JournalJson j) \<Rightarrow> (Inr j, w)))"

definition save_state :: "string option \<Rightarrow> journal \<Rightarrow> world \<Rightarrow> world" where
  "save_state path state w =
     (case path of
        None \<Rightarrow> w
      | Some p \<Rightarrow> emit (WriteJournal p state) (write_file p (JournalJson state) w))"

subsection \<open>Resolving context and tasks (lines 801--839)\<close>

text \<open>The truth value of an optional text: \<^verbatim>\<open>None\<close> and the empty text are false.\<close>

definition given :: "string option \<Rightarrow> bool" where
  "given x = (case x of None \<Rightarrow> False | Some s \<Rightarrow> s \<noteq> [])"

text \<open>\<^verbatim>\<open>_run_menu\<close> and \<^verbatim>\<open>_run_multi_menu\<close> (lines 327--351): the answer of the
  terminal menu, \<^verbatim>\<open>SystemExit\<close> when the operator aborts.\<close>

definition run_menu :: "env \<Rightarrow> error + nat" where
  "run_menu ev =
     (case menu_context ev of
        None \<Rightarrow> Inl (SystemExit ''User aborted selection.'')
      | Some i \<Rightarrow> Inr i)"

definition run_multi_menu :: "env \<Rightarrow> error + int list" where
  "run_multi_menu ev =
     (case menu_tasks ev of
        None \<Rightarrow> Inl (SystemExit ''User aborted selection.'')
      | Some indices \<Rightarrow> Inr indices)"

definition resolve_context :: "Namespace \<Rightarrow> bool \<Rightarrow> bool \<Rightarrow> env \<Rightarrow> error + string" where
  "resolve_context args auto_confirm' use_menu ev =
     (let v = (case args_context args of
                 None \<Rightarrow> ROOT
               | Some c \<Rightarrow> if c \<noteq> [] then c else ROOT)
      in if args_no_menu args \<or> \<not> use_menu \<or> (given (args_context args) \<and> auto_confirm')
         then Inr v
         else (case run_menu ev of
                 Inl e \<Rightarrow> Inl e
               | Inr i \<Rightarrow>
                   (case CONTEXT_VALUE_BY_INDEX i of
                      None \<Rightarrow> Inl KeyError
                    | Some c \<Rightarrow> Inr c)))"

text \<open>Line 823: the tokens of an explicit task list, stripped and in lower case, the
  empty ones dropped.\<close>

definition requested_tokens :: "string \<Rightarrow> string list" where
  "requested_tokens s =
     map (\<lambda>token. py_lower (py_strip token))
       (filter (\<lambda>token. py_strip token \<noteq> []) (py_split CHR '','' s))"

definition resolve_tasks ::
  "Namespace \<Rightarrow> string \<Rightarrow> bool \<Rightarrow> bool \<Rightarrow> env \<Rightarrow> error + int list" where
  "resolve_tasks args context auto_confirm' use_menu ev =
     (let chosen =
        (case args_tasks args of
           None \<Rightarrow> Inr (defaults_for_context context)
         | Some s \<Rightarrow>
             if s = [] then Inr (defaults_for_context context)
             else
               (let requested = requested_tokens s;
                    invalid = filter (\<lambda>token. TASK_INDEX_BY_KEY token = None) requested
                in if invalid \<noteq> []
                   then Inl (SystemExit (''Invalid task identifiers: '' @ py_join '', '' invalid))
                   else traverse
                          (\<lambda>token. case TASK_INDEX_BY_KEY token of
                                      None \<Rightarrow> Inl KeyError
                                    | Some i \<Rightarrow> Inr i)
                          requested))
      in case chosen of
           Inl e \<Rightarrow> Inl e
         | Inr indices \<Rightarrow>
             if args_no_menu args \<or> \<not> use_menu \<or> (given (args_tasks args) \<and> auto_confirm')
             then Inr indices
             else run_multi_menu ev)"

subsection \<open>Target paths (lines 202--240)\<close>

definition detect_default_paths :: "env \<Rightarrow> string \<Rightarrow> string option \<Rightarrow> PathsConfig" where
  "detect_default_paths ev context target_user =
     (let home0 = (if context = ROOT then ''/root'' else user_home ev);
          home = (case target_user of
                    None \<Rightarrow> home0
                  | Some u \<Rightarrow>
                      if u \<noteq> [] \<and> context = ROOT \<and> u \<noteq> ''root''
                      then path_join ''/home'' u else home0)
      in \<lparr>home_dir = home,
          ssh_authorized_keys = path_join (path_join home ''.ssh'') ''authorized_keys'',
          zshrc = path_join home ''.zshrc'',
          p10k = path_join home ''.p10k.zsh'',
          data_dirs = [path_join home ''toolchain'', path_join home ''temp'',
                       path_join home ''workspace'']\<rparr>)"

text \<open>\<^verbatim>\<open>_ask\<close> for each path in turn: a line of input, stripped, replaces the default
  unless it is empty; \<^verbatim>\<open>input\<close> raises \<^verbatim>\<open>EOFError\<close> at the end of input. The answers
  come back in the order of the questions, as many as there were paths; so the second
  case of \<open>confirm_paths\<close> below, fewer than four answers, never arises.\<close>

fun ask_paths :: "string list \<Rightarrow> string list \<Rightarrow> (error + string list) \<times> string list" where
  "ask_paths [] lines = (Inr [], lines)"
| "ask_paths (p # ps) [] = (Inl EOFError, [])"
| "ask_paths (p # ps) (line # rest) =
     (let v = py_strip line; answer = (if v \<noteq> [] then v else p)
      in case ask_paths ps rest of
           (Inl e, rest') \<Rightarrow> (Inl e, rest')
         | (Inr answers, rest') \<Rightarrow> (Inr (answer # answers), rest'))"

definition confirm_paths ::
  "PathsConfig \<Rightarrow> bool \<Rightarrow> world \<Rightarrow> (error + PathsConfig) \<times> world" where
  "confirm_paths defaults auto_confirm' w =
     (if auto_confirm' then (Inr defaults, w)
      else
        (let w1 = print (CHR 0x0A # ''Review target paths (press ENTER to keep defaults):'') w
         in case ask_paths
                   ([home_dir defaults, ssh_authorized_keys defaults, zshrc defaults,
                     p10k defaults] @ data_dirs defaults) (stdin w1) of
              (Inr (home # ssh_keys # zshrc' # p10k' # dirs), rest) \<Rightarrow>
                (Inr \<lparr>home_dir = home, ssh_authorized_keys = ssh_keys, zshrc = zshrc',
                      p10k = p10k', data_dirs = dirs\<rparr>, w1\<lparr>stdin := rest\<rparr>)
            | (Inr _, rest) \<Rightarrow> (Inl ValueError, w1\<lparr>stdin := rest\<rparr>)
            | (Inl e, rest) \<Rightarrow> (Inl e, w1\<lparr>stdin := rest\<rparr>)))"

subsection \<open>Task bodies (lines 357--730)\<close>

text \<open>
  A task body is modelled by the way its run ends, which \<open>body ev\<close> gives for each
  key: what the body does to the host in between (commands sent to the runner, shell
  and key files, prompts, its own printing) is outside the model.
  \<^item> \<open>Raises e\<close>: an exception leaves the body, for instance the \<^verbatim>\<open>RuntimeError\<close> of
    the command runner; \<^verbatim>\<open>mark_task_complete\<close> is not reached.
  \<^item> \<open>RunsToEnd\<close>: the body reaches its last statement, the call of
    \<^verbatim>\<open>mark_task_complete\<close>.
  \<^item> \<open>ReturnsEarly\<close>: a \<^verbatim>\<open>return\<close> before that call. Only \<^verbatim>\<open>task_miniconda\<close> has any
    (lines 634, 637 and 664); the other bodies have no such path and run to their end.
\<close>

type_synonym task_body =
  "env \<Rightarrow> ExecutionOptions \<Rightarrow> PathsConfig \<Rightarrow> world \<Rightarrow> (error + unit) \<times> world"

definition task_os_settings :: task_body where
  "task_os_settings ev options paths w =
     (case body ev ''os'' of
        Raises e \<Rightarrow> (Inl e, w)
      | _ \<Rightarrow> (Inr (), mark_task_complete ev paths ''os'' options w))"

definition task_ssh_setup :: task_body where
  "task_ssh_setup ev options paths w =
     (case body ev ''ssh'' of
        Raises e \<Rightarrow> (Inl e, w)
      | _ \<Rightarrow> (Inr (), mark_task_complete ev paths ''ssh'' options w))"

definition task_custom_zsh :: task_body where
  "task_custom_zsh ev options paths w =
     (case body ev ''zsh'' of
        Raises e \<Rightarrow> (Inl e, w)
      | _ \<Rightarrow> (Inr (), mark_task_complete ev paths ''zsh'' options w))"

definition task_miniconda :: task_body where
  "task_miniconda ev options paths w =
     (case body ev ''conda'' of
        Raises e \<Rightarrow> (Inl e, w)
      | ReturnsEarly \<Rightarrow> (Inr (), w)
      | RunsToEnd \<Rightarrow> (Inr (), mark_task_complete ev paths ''conda'' options w))"

definition task_git_setup :: task_body where
  "task_git_setup ev options paths w =
     (case body ev ''git'' of
        Raises e \<Rightarrow> (Inl e, w)
      | _ \<Rightarrow> (Inr (), mark_task_complete ev paths ''git'' options w))"

definition TASK_IMPLEMENTATIONS :: "string \<Rightarrow> task_body option" where
  "TASK_IMPLEMENTATIONS k =
     (if k = ''os'' then Some task_os_settings
      else if k = ''ssh'' then Some task_ssh_setup
      else if k = ''zsh'' then Some task_custom_zsh
      else if k = ''conda'' then Some task_miniconda
      else if k = ''git'' then Some task_git_setup
      else None)"

subsection \<open>The workflow driver (lines 876--948)\<close>

text \<open>One iteration of the loop over the ordered tasks (lines 908--930), for the task
  \<open>task\<close> and the journal \<open>completed\<close> as they are when the iteration starts. It
  returns the journal at the end of the iteration (a \<^verbatim>\<open>continue\<close> leaves it as it
  is), or the exception when the body raised. Calling the body is the event
  \<open>Invoke\<close>.\<close>

definition run_task ::
  "env \<Rightarrow> Namespace \<Rightarrow> string \<Rightarrow> ExecutionOptions \<Rightarrow> PathsConfig \<Rightarrow>
   TaskDefinition \<Rightarrow> journal \<Rightarrow> world \<Rightarrow> (error + journal) \<times> world" where
  "run_task ev args context options paths task completed w =
     (if should_skip (key task) context then
        (Inr completed, print (''Skipping '' @ title task @ '' due to context rules.'') w)
      else if \<not> args_force args \<and> is_task_marked_complete paths (key task) w then
        (Inr (completed(key task \<mapsto> True)),
         print (''Skipping '' @ title task @ '' (already completed at ''
                  @ task_marker paths (key task) @ '').'') w)
      else if completed (key task) = Some True \<and> \<not> args_force args then
        (Inr completed,
         print (''Skipping '' @ title task
                  @ '' (already completed; use --force to rerun).'') w)
      else
        (let w1 = print (CHR 0x0A # ''=== Running task: '' @ title task @ '' ==='') w
         in case TASK_IMPLEMENTATIONS (key task) of
              None \<Rightarrow>
                (Inr completed,
                 print (''No implementation for task '' @ [CHR 0x27] @ key task
                          @ [CHR 0x27] @ ''.'') w1)
            | Some impl \<Rightarrow>
                (case impl ev options paths (emit (Invoke (key task)) w1) of
                   (Inl e, w2) \<Rightarrow> (Inl e, w2)
                 | (Inr u, w2) \<Rightarrow> (Inr (completed(key task \<mapsto> True)), w2))))"

text \<open>The loop (line 907): the iterations in order, ended by the first exception.\<close>

fun run_tasks ::
  "env \<Rightarrow> Namespace \<Rightarrow> string \<Rightarrow> ExecutionOptions \<Rightarrow> PathsConfig \<Rightarrow>
   TaskDefinition list \<Rightarrow> journal \<Rightarrow> world \<Rightarrow> (error + journal) \<times> world" where
  "run_tasks ev args context options paths [] completed w = (Inr completed, w)"
| "run_tasks ev args context options paths (task # rest) completed w =
     (case run_task ev args context options paths task completed w of
        (Inl e, w') \<Rightarrow> (Inl e, w')
      | (Inr completed', w') \<Rightarrow>
          run_tasks ev args context options paths rest completed' w')"

text \<open>\<^verbatim>\<open>args.resume_state or pathlib.Path(".server_init_state.json")\<close>, the
  state file.\<close>

definition state_path :: "Namespace \<Rightarrow> string" where
  "state_path args =
     (case args_resume_state args of
        None \<Rightarrow> ''.server_init_state.json''
      | Some p \<Rightarrow> p)"

text \<open>\<^verbatim>\<open>args.write_state or state_path\<close>, where the journal is saved.\<close>

definition save_target :: "Namespace \<Rightarrow> string" where
  "save_target args =
     (case args_write_state args of
        None \<Rightarrow> state_path args
      | Some p \<Rightarrow> p)"

text \<open>\<^verbatim>\<open>prepare_logger\<close> (lines 863--873): the path of the command log, the one given
  or \<^verbatim>\<open>logs/server_init_<time>.log\<close> under the current directory. The file it
  creates there is the command log, which is not a file of the store.\<close>

definition prepare_logger :: "env \<Rightarrow> string option \<Rightarrow> string" where
  "prepare_logger ev log_file' =
     (case log_file' of
        Some p \<Rightarrow> p
      | None \<Rightarrow>
          path_join (path_join (current_dir ev) ''logs'') (''server_init_'' @ log_stamp ev @ ''.log''))"

text \<open>
  The run summary (lines 936--943), one text of five lines. The tasks requested are
  the keys at the selected indices, which are all in range once
  \<^verbatim>\<open>order_tasks_from_indices\<close> has returned. The tasks completed are the keys of
  the journal whose entry is true, in the order of the \<^verbatim>\<open>dict\<close>: first the keys
  of the loaded state, then the keys the loop has added, which it adds in the order
  of the tasks.
\<close>

definition summary_text ::
  "env \<Rightarrow> string \<Rightarrow> int list \<Rightarrow> journal \<Rightarrow> TaskDefinition list \<Rightarrow> journal \<Rightarrow>
   string \<Rightarrow> string" where
  "summary_text ev context selected_indices state ordered_tasks completed log_path =
     (let requested = map (\<lambda>i. key (TASKS ! py_pos i)) selected_indices;
          items = filter (\<lambda>k. state k \<noteq> None) (state_keys ev)
                  @ filter (\<lambda>k. state k = None \<and> completed k \<noteq> None)
                      (map key ordered_tasks);
          finished = filter (\<lambda>k. completed k = Some True) items
      in py_join [CHR 0x0A]
           [CHR 0x0A # ''Run summary:'',
            ''  Context: '' @ context,
            ''  Tasks requested: '' @ py_str_list requested,
            ''  Tasks completed: '' @ py_str_list finished,
            ''  Log file: '' @ log_path])"

text \<open>Lines 943--947: the summary and the closing advice.\<close>

definition print_summary :: "string \<Rightarrow> ExecutionOptions \<Rightarrow> world \<Rightarrow> world" where
  "print_summary text options w =
     print (if dry_run options
            then ''Next steps: review the log, adjust plan.md as tasks mature, re-run with --force to execute commands.''
            else ''Next steps: review the log and rerun tasks if further adjustments are needed.'')
       (print text w)"

text \<open>
  \<^verbatim>\<open>main\<close>, from the parsed arguments on. The command runner it constructs (line
  900) is not passed on, since the task bodies are modelled by the way they end;
  closing it in the \<^verbatim>\<open>finally\<close> block is the event \<open>CloseLog\<close>.
\<close>

definition main :: "env \<Rightarrow> Namespace \<Rightarrow> world \<Rightarrow> (error + int) \<times> world" where
  "main ev args w =
     (case load_state (Some (state_path args)) w of
        (Inl e, w0) \<Rightarrow> (Inl e, w0)
      | (Inr state, w0) \<Rightarrow>
     (let w1 = print (''Detected architecture: '' @ machine ev)
                 (print (''Detected OS: '' @ os_name ev @ '' '' @ os_version ev) w0);
          use_menu = \<not> args_no_menu args
      in case resolve_context args (args_yes args) use_menu ev of
        Inl e \<Rightarrow> (Inl e, w1)
      | Inr context \<Rightarrow>
     (case resolve_tasks args context (args_yes args) use_menu ev of
        Inl e \<Rightarrow> (Inl e, w1)
      | Inr selected_indices \<Rightarrow>
     (case ensure_command_execution_safety args w1 of
        (options, w2) \<Rightarrow>
     (let target_for_paths = (if context = ROOT then None else Some (current_user ev))
      in case confirm_paths (detect_default_paths ev context target_for_paths)
                (auto_confirm options) w2 of
        (Inl e, w3) \<Rightarrow> (Inl e, w3)
      | (Inr paths, w3) \<Rightarrow>
     (let log_path = prepare_logger ev (args_log_file args);
          w4 = print (''Logging commands to '' @ log_path) w3
      in case order_tasks_from_indices selected_indices of
        Inl e \<Rightarrow> (Inl e, w4)
      | Inr ordered_tasks \<Rightarrow>
     (let completed = Map.empty ++ state
      in case run_tasks ev args context options paths ordered_tasks completed w4 of
        (Inl e, w5) \<Rightarrow> (Inl e, emit CloseLog w5)
      | (Inr completed', w5) \<Rightarrow>
          (Inr 0,
           print_summary
             (summary_text ev context selected_indices state ordered_tasks completed'
                log_path)
             options
             (save_state (Some (save_target args)) completed' (emit CloseLog w5))))))))))"

text \<open>The events a run added to the trace, given the world before and after it.\<close>

definition added :: "world \<Rightarrow> world \<Rightarrow> event list" where
  "added w w' = drop (length (trace w)) (trace w')"

subsection \<open>The command runner (lines 243--302)\<close>

text \<open>\<^verbatim>\<open>shlex.quote\<close>: the empty text becomes two quotes; a text of letters, digits
  and \<^verbatim>\<open>_@%+=:,./-\<close> only is left as it is; any other text is put in single quotes,
  each single quote inside it written as \<^verbatim>\<open>'"'"'\<close>.\<close>

definition shlex_safe :: "char \<Rightarrow> bool" where
  "shlex_safe c =
     (let n = (of_char c :: nat)
      in (48 \<le> n \<and> n \<le> 57) \<or> (65 \<le> n \<and> n \<le> 90) \<or> (97 \<le> n \<and> n \<le> 122)
         \<or> c \<in> set ''_@%+=:,./-'')"

definition shlex_quote :: "string \<Rightarrow> string" where
  "shlex_quote s =
     (if s = [] then [CHR 0x27, CHR 0x27]
      else if list_all shlex_safe s then s
      else [CHR 0x27]
           @ concat (map (\<lambda>c. if c = CHR 0x27
                               then [CHR 0x27, CHR 0x22, CHR 0x27, CHR 0x22, CHR 0x27]
                               else [c]) s)
           @ [CHR 0x27])"

definition shlex_join :: "string list \<Rightarrow> string" where
  "shlex_join xs = py_join '' '' (map shlex_quote xs)"

text \<open>\<^verbatim>\<open>str\<close> of a boolean and of an integer.\<close>

definition py_str_bool :: "bool \<Rightarrow> string" where
  "py_str_bool b = (if b then ''True'' else ''False'')"

function py_str_nat :: "nat \<Rightarrow> string" where
  "py_str_nat n =
     (if n < 10 then [char_of (48 + n)]
      else py_str_nat (n div 10) @ [char_of (48 + n mod 10)])"
  by pat_completeness auto
termination
  by (relation "measure (\<lambda>n. n)") auto

definition py_str_int :: "int \<Rightarrow> string" where
  "py_str_int i = (if i < 0 then ''-'' @ py_str_nat (nat (- i)) else py_str_nat (nat i))"

record CommandRunner =
  log_file :: string
  runner_dry_run :: bool
  runner_sudo_allowed :: bool

record CompletedProcess =
  returncode :: int
  stdout :: string
  stderr :: string

text \<open>What a call of \<^verbatim>\<open>run\<close> does, in order: texts written to the log
  (\<^verbatim>\<open>_write\<close>, which flushes) and the process it starts, with the command line, the
  working directory and the environment overrides it passes to \<^verbatim>\<open>subprocess.run\<close>.\<close>

datatype effect =
    LogWrite string
  | Spawn "string list" "string option" "(string \<times> string) list"

text \<open>The host as \<^verbatim>\<open>run\<close> sees it: the formatted time of the call, the current
  directory, and what \<^verbatim>\<open>subprocess.run\<close> gives for a command line, a working
  directory and environment overrides: the completed process, or the exception it
  raises when the command cannot be started.\<close>

record host =
  timestamp :: string
  getcwd :: string
  subprocess_run ::
    "string list \<Rightarrow> string option \<Rightarrow> (string \<times> string) list \<Rightarrow> error + CompletedProcess"

text \<open>The environment overrides are a \<^verbatim>\<open>dict\<close>, here the list of its items;
  \<^verbatim>\<open>sorted((env or {}).keys())\<close> is the sorted list of its keys.\<close>

definition env_keys_of :: "(string \<times> string) list option \<Rightarrow> string list" where
  "env_keys_of e =
     (case e of None \<Rightarrow> [] | Some items \<Rightarrow> sort (remdups (map fst items)))"

definition run ::
  "CommandRunner \<Rightarrow> host \<Rightarrow> string list \<Rightarrow> bool \<Rightarrow> string option \<Rightarrow>
   (string \<times> string) list option \<Rightarrow> bool \<Rightarrow>
   (error + CompletedProcess option) \<times> effect list" where
  "run self h command sudo cwd e check =
     (if sudo \<and> \<not> runner_sudo_allowed self
      then (Inl (RuntimeError ''Attempted to use sudo without permission''), [])
      else
        (let cmd_list = (if sudo then [''sudo'', ''--''] @ command else command);
             joined = shlex_join cmd_list;
             cwd_str = (case cwd of Some d \<Rightarrow> d | None \<Rightarrow> getcwd h);
             env_keys = env_keys_of e;
             header =
               [LogWrite ([CHR 0x0A] @ ''['' @ timestamp h @ ''] CMD: '' @ joined @ [CHR 0x0A]),
                LogWrite (''cwd='' @ cwd_str @ '' sudo='' @ py_str_bool sudo
                          @ '' env_overrides='' @ py_str_list env_keys @ [CHR 0x0A])]
         in if runner_dry_run self
            then (Inr None,
                  header @ [LogWrite (''(dry-run) Command not executed.'' @ [CHR 0x0A])])
            else
              (let overrides = (case e of None \<Rightarrow> [] | Some items \<Rightarrow> items);
                   started = header @ [Spawn cmd_list cwd overrides]
               in case subprocess_run h cmd_list cwd overrides of
                    Inl err \<Rightarrow> (Inl err, started)
                  | Inr proc \<Rightarrow>
                      (let effects =
                         started
                         @ [LogWrite (''exit_code='' @ py_str_int (returncode proc)
                                      @ [CHR 0x0A])]
                         @ (if stdout proc \<noteq> []
                            then [LogWrite (''--- stdout ---'' @ [CHR 0x0A] @ stdout proc)]
                            else [])
                         @ (if stderr proc \<noteq> []
                            then [LogWrite (''--- stderr ---'' @ [CHR 0x0A] @ stderr proc)]
                            else [])
                       in if check \<and> returncode proc \<noteq> 0
                          then (Inl (RuntimeError (''Command failed with exit code ''
                                       @ py_str_int (returncode proc) @ '': '' @ joined)),
                                effects)
                          else (Inr (Some proc), effects)))))"

subsection \<open>Example runs\<close>

text \<open>
  Concrete runs, used to evaluate the model. The operator gives the tasks on the
  command line and skips the menus. In \<open>example_env\<close> every body runs to its end,
  except the body of the zsh task: when it is executed for real, its first command,
  \<^verbatim>\<open>apt update\<close>, ends with status 100 and the runner raises.
\<close>

definition example_env :: env where
  "example_env =
     \<lparr>menu_context = None, menu_tasks = None, now = ''2026-11-04T09:00:00'',
      log_stamp = ''20261104_090000'', user_home = ''/home/op'', current_user = ''op'',
      current_dir = ''/srv'', os_name = ''Linux'', os_version = ''#1 SMP'', machine = ''x86_64'',
      state_keys = [],
      body = (\<lambda>k. if k = ''zsh''
                    then Raises (RuntimeError
                           ''Command failed with exit code 100: sudo -- apt update'')
                    else RunsToEnd)\<rparr>"

text \<open>\<^verbatim>\<open>--no-menu --yes --tasks git\<close>: neither \<^verbatim>\<open>--force\<close> nor \<^verbatim>\<open>--dry-run\<close>.\<close>

definition example_args :: Namespace where
  "example_args =
     \<lparr>args_context = None, args_tasks = Some ''git'', args_yes = True,
      args_dry_run = False, args_force = False, args_log_file = None,
      args_no_menu = True, args_resume_state = None, args_write_state = None\<rparr>"

text \<open>A host with no state file and no marker, and nothing to read on standard
  input.\<close>

definition example_world :: world where
  "example_world = \<lparr>fs = Map.empty, stdin = [], trace = []\<rparr>"

text \<open>The marker of the git task, under the home directory of root.\<close>

definition git_marker :: string where
  "git_marker = ''/root/.server_init_markers/git.done''"

text \<open>A host for the command runner: the command started returns status 0 and
  prints nothing.\<close>

definition example_host :: host where
  "example_host =
     \<lparr>timestamp = ''2026-11-04 09:00:00'', getcwd = ''/srv'',
      subprocess_run = (\<lambda>cmd d items. Inr \<lparr>returncode = 0, stdout = [], stderr = []\<rparr>)\<rparr>"

section \<open>Properties\<close>

subsection \<open>The execution safety policy\<close>

text \<open>
  Claim C1. For every combination of flags in which the force flag is false,
  \<^verbatim>\<open>ensure_command_execution_safety\<close> resolves \<open>dry_run\<close> to true, whatever the
  dry-run flag itself says and whatever is typed at the prompt. The resolved value is
  exactly ``dry-run flag, or not force'', so a run that is not a dry run has force set;
  the force flag is passed on unchanged.
\<close>

theorem default_safety:
  "(\<not> args_force args \<longrightarrow> dry_run (fst (ensure_command_execution_safety args w)))
   \<and> (dry_run (fst (ensure_command_execution_safety args w))
        \<longleftrightarrow> args_dry_run args \<or> \<not> args_force args)
   \<and> force (fst (ensure_command_execution_safety args w)) = args_force args"
  by (simp add: ensure_command_execution_safety_def Let_def split: prod.splits)

text \<open>The invariant at a run that asks for neither switch and answers the prompt
  with ``y''.\<close>

theorem default_safety_witness:
  "\<not> args_force \<lparr>args_context = None, args_tasks = None, args_yes = False,
       args_dry_run = False, args_force = False, args_log_file = None,
       args_no_menu = True, args_resume_state = None, args_write_state = None\<rparr>
   \<and> dry_run (fst (ensure_command_execution_safety
        \<lparr>args_context = None, args_tasks = None, args_yes = False,
         args_dry_run = False, args_force = False, args_log_file = None,
         args_no_menu = True, args_resume_state = None, args_write_state = None\<rparr>
        \<lparr>fs = Map.empty, stdin = [''y''], trace = []\<rparr>))"
  using default_safety
    [of "\<lparr>args_context = None, args_tasks = None, args_yes = False,
         args_dry_run = False, args_force = False, args_log_file = None,
         args_no_menu = True, args_resume_state = None, args_write_state = None\<rparr>"
        "\<lparr>fs = Map.empty, stdin = [''y''], trace = []\<rparr>"]
  by simp

subsection \<open>Ordering the selected tasks\<close>

lemma traverse_guard:
  "traverse (\<lambda>x. if P x then Inr (h x) else Inl e) xs
     = (if \<forall>x\<in>set xs. P x then Inr (map h xs) else Inl e)"
  by (induction xs) auto

lemma py_index_guard:
  "py_index xs i =
     (if - int (length xs) \<le> i \<and> i < int (length xs)
      then Inr (xs ! nat (if i < 0 then int (length xs) + i else i)) else Inl IndexError)"
  by (auto simp: py_index_def)

lemma registry_lookup:
  "traverse (\<lambda>k. case list_index (map key TASKS) k of Inl e \<Rightarrow> Inl e
                   | Inr n \<Rightarrow> py_index TASKS (int n))
      (filter P (map key TASKS)) = Inr (filter (\<lambda>t. P (key t)) TASKS)"
  by (simp add: TASKS_def py_index_def)

lemma order_tasks_unfold:
  "order_tasks_from_indices indices =
     (if \<forall>i\<in>set indices. - 5 \<le> i \<and> i < 5
      then Inr (filter (\<lambda>t. key t \<in> (\<lambda>i. key (TASKS ! py_pos i)) ` set indices) TASKS)
      else Inl IndexError)"
proof -
  have len: "int (length TASKS) = 5" by (simp add: TASKS_def)
  have g: "(\<lambda>i. map_sum id key (py_index TASKS i))
            = (\<lambda>i. if - 5 \<le> i \<and> i < 5 then Inr (key (TASKS ! py_pos i)) else Inl IndexError)"
    by (rule ext) (simp add: py_index_guard len py_pos_def)
  show ?thesis
    unfolding order_tasks_from_indices_def Let_def g traverse_guard
    by (simp add: registry_lookup)
qed

lemma order_tasks_set_only:
  "set xs = set ys \<Longrightarrow> order_tasks_from_indices xs = order_tasks_from_indices ys"
  by (simp add: order_tasks_unfold)

lemma distinct_keys: "distinct (map key TASKS)"
  by (simp add: TASKS_def)

lemma key_selected_iff:
  assumes t: "t \<in> set TASKS" and v: "\<forall>i\<in>set indices. - 5 \<le> i \<and> i < 5"
  shows "key t \<in> (\<lambda>i. key (TASKS ! py_pos i)) ` set indices
         \<longleftrightarrow> (\<exists>i\<in>set indices. py_index TASKS i = Inr t)"
proof
  have len: "int (length TASKS) = 5" by (simp add: TASKS_def)
  have idx: "py_index TASKS i = Inr (TASKS ! py_pos i)" if "i \<in> set indices" for i
    using v that by (simp add: py_index_guard len py_pos_def)
  {
    assume "key t \<in> (\<lambda>i. key (TASKS ! py_pos i)) ` set indices"
    then obtain i where i: "i \<in> set indices" and k: "key t = key (TASKS ! py_pos i)"
      by (rule imageE)
    have "py_pos i < length TASKS"
      using v i len by (auto simp: py_pos_def)
    then have "TASKS ! py_pos i \<in> set TASKS" by (rule nth_mem)
    with t k distinct_keys have "t = TASKS ! py_pos i"
      by (simp add: distinct_map inj_on_def)
    with idx [OF i] i show "\<exists>i\<in>set indices. py_index TASKS i = Inr t"
      by (intro bexI [of _ i]) simp_all
  }
  {
    assume "\<exists>i\<in>set indices. py_index TASKS i = Inr t"
    then obtain i where i: "i \<in> set indices" and p: "py_index TASKS i = Inr t"
      by (rule bexE)
    from idx [OF i] p have "t = TASKS ! py_pos i" by simp
    with i show "key t \<in> (\<lambda>i. key (TASKS ! py_pos i)) ` set indices"
      by (intro image_eqI [of _ _ i]) simp_all
  }
qed

text \<open>
  Claim C6. For every list of task indices (each in the range of the registry,
  counted from the front or, as Python allows, from the end), in any order and with
  any duplicates, \<^verbatim>\<open>order_tasks_from_indices\<close> returns the selected tasks in registry
  order, each once: the result is the registry filtered by ``selected by some
  index'', it has no duplicates, it is a subsequence of the registry, and every list
  with the same set of indices gives the same result.
\<close>

theorem order_tasks_registry_order:
  assumes "\<forall>i\<in>set indices. - 5 \<le> i \<and> i < 5"
  shows "\<exists>ts. order_tasks_from_indices indices = Inr ts
            \<and> ts = filter (\<lambda>t. \<exists>i\<in>set indices. py_index TASKS i = Inr t) TASKS
            \<and> distinct ts \<and> subseq ts TASKS
            \<and> (\<forall>indices'. set indices' = set indices
                  \<longrightarrow> order_tasks_from_indices indices' = Inr ts)"
proof -
  let ?ts = "filter (\<lambda>t. key t \<in> (\<lambda>i. key (TASKS ! py_pos i)) ` set indices) TASKS"
  have r: "order_tasks_from_indices indices = Inr ?ts"
    using assms by (simp add: order_tasks_unfold)
  have e: "?ts = filter (\<lambda>t. \<exists>i\<in>set indices. py_index TASKS i = Inr t) TASKS"
    by (rule filter_cong) (use assms key_selected_iff in auto)
  have d: "distinct ?ts"
    using distinct_keys by (simp add: distinct_map)
  have s: "subseq ?ts TASKS" by simp
  have i: "\<forall>indices'. set indices' = set indices
                  \<longrightarrow> order_tasks_from_indices indices' = Inr ?ts"
    using r order_tasks_set_only by metis
  show ?thesis
    by (intro exI [of _ ?ts] conjI) (rule r e d s i)+
qed


text \<open>The selection 4, 0, 1, 0 and the selection 1, 4, 0 both give os, ssh, git.\<close>

theorem order_tasks_registry_order_witness:
  "list_all (\<lambda>i. - 5 \<le> i \<and> i < 5) [4, 0, 1, 0::int]
   \<and> (\<exists>ts. order_tasks_from_indices [4, 0, 1, 0] = Inr ts
          \<and> map key ts = [''os'', ''ssh'', ''git'']
          \<and> order_tasks_from_indices [1, 4, 0] = Inr ts)"
proof -
  have h: "\<forall>i\<in>set [4, 0, 1, 0::int]. - 5 \<le> i \<and> i < 5" by simp
  from order_tasks_registry_order [OF h] obtain ts where
    a: "order_tasks_from_indices [4, 0, 1, 0] = Inr ts" and
    b: "ts = filter (\<lambda>t. \<exists>i\<in>set [4, 0, 1, 0]. py_index TASKS i = Inr t) TASKS" and
    c: "\<forall>indices'. set indices' = set [4, 0, 1, 0::int]
          \<longrightarrow> order_tasks_from_indices indices' = Inr ts"
    by (elim exE conjE)
  have k: "map key ts = [''os'', ''ssh'', ''git'']"
    unfolding b by (simp add: TASKS_def py_index_def)
  have "set [1, 4, 0] = set [4, 0, 1, 0::int]" by auto
  then have d: "order_tasks_from_indices [1, 4, 0] = Inr ts"
    by (rule c [rule_format])
  show ?thesis
  proof (intro conjI exI [of _ ts])
    show "list_all (\<lambda>i. - 5 \<le> i \<and> i < 5) [4, 0, 1, 0::int]" by simp
  qed (rule a k d)+
qed

subsection \<open>The task loop: what an iteration and the loop can do\<close>

lemma impl_unfold:
  "TASK_IMPLEMENTATIONS k = Some impl \<Longrightarrow>
   impl ev options paths w =
     (case body ev k of
        Raises e \<Rightarrow> (Inl e, w)
      | ReturnsEarly \<Rightarrow>
          (Inr (), if k = ''conda'' then w else mark_task_complete ev paths k options w)
      | RunsToEnd \<Rightarrow> (Inr (), mark_task_complete ev paths k options w))"
  by (auto simp: TASK_IMPLEMENTATIONS_def task_os_settings_def task_ssh_setup_def
        task_custom_zsh_def task_miniconda_def task_git_setup_def
      split: if_splits body_end.splits)

lemma added_append: "trace w' = trace w @ evs \<Longrightarrow> added w w' = evs"
  by (simp add: added_def)

lemma added_self: "added w w = []"
  by (simp add: added_def)

lemma added_prefix: "prefix (trace w) (trace w') \<Longrightarrow> trace w' = trace w @ added w w'"
  by (auto simp: added_def prefix_def)

lemma added_trans:
  assumes "prefix (trace w) (trace w1)" "prefix (trace w1) (trace w')"
  shows "added w w' = added w w1 @ added w1 w'"
proof -
  from assms obtain a b where "trace w1 = trace w @ a" "trace w' = trace w1 @ b"
    by (auto simp: prefix_def)
  then show ?thesis by (simp add: added_def)
qed

lemmas world_simps = emit_def print_def write_file_def mark_task_complete_def Let_def

lemma task_marker_inj: "task_marker paths k = task_marker paths k' \<longleftrightarrow> k = k'"
  by (simp add: task_marker_def path_join_def)

subsubsection \<open>One iteration\<close>

lemma run_task_world:
  assumes "run_task ev args context options paths t completed w = (res, w')"
  shows "stdin w' = stdin w
     \<and> (\<exists>evs. trace w' = trace w @ evs
           \<and> set evs \<subseteq> range Print
                \<union> {Invoke (key t), WriteMarker (task_marker paths (key t)) (now ev)})
     \<and> (fs w' = fs w
         \<or> (\<not> dry_run options
             \<and> fs w' = (fs w)(task_marker paths (key t) \<mapsto> NotJson (now ev))))"
  using assms
  by (auto simp: run_task_def world_simps impl_unfold
      split: if_splits option.splits body_end.splits)

lemma run_task_prefix:
  "run_task ev args context options paths t completed w = (res, w')
   \<Longrightarrow> prefix (trace w) (trace w')"
  using run_task_world by (fastforce simp: prefix_def)

lemma run_task_events:
  assumes "run_task ev args context options paths t completed w = (res, w')"
  shows "set (added w w') \<subseteq> range Print
           \<union> {Invoke (key t), WriteMarker (task_marker paths (key t)) (now ev)}"
proof -
  from run_task_world [OF assms] obtain evs where
    "trace w' = trace w @ evs"
    "set evs \<subseteq> range Print
       \<union> {Invoke (key t), WriteMarker (task_marker paths (key t)) (now ev)}"
    by blast
  then show ?thesis by (simp add: added_append)
qed

lemma run_task_journal:
  assumes "run_task ev args context options paths t completed w = (Inr c', w')"
  shows "c' = completed \<or> c' = completed(key t \<mapsto> True)"
  using assms
  by (auto simp: run_task_def Let_def split: if_splits option.splits prod.splits sum.splits)

lemma run_task_invoked:
  assumes "run_task ev args context options paths t completed w = (res, w')"
    and "Invoke k \<in> set (added w w')"
  shows "key t = k \<and> \<not> should_skip k context
     \<and> (args_force args
          \<or> (\<not> is_task_marked_complete paths k w \<and> completed k \<noteq> Some True))
     \<and> (\<forall>c'. res = Inr c' \<longrightarrow> c' k = Some True)
     \<and> (\<forall>e. body ev k = Raises e \<longrightarrow> res = Inl e)"
  using assms
  by (auto simp: run_task_def world_simps impl_unfold added_def
      split: if_splits option.splits body_end.splits)

lemma run_task_raised:
  assumes "run_task ev args context options paths t completed w = (Inl e, w')"
  shows "Invoke (key t) \<in> set (added w w') \<and> body ev (key t) = Raises e"
  using assms
  by (auto simp: run_task_def world_simps impl_unfold added_def
      split: if_splits option.splits body_end.splits)

lemma run_task_context_skip:
  assumes "should_skip (key t) context"
  shows "run_task ev args context options paths t completed w
           = (Inr completed, print (''Skipping '' @ title t @ '' due to context rules.'') w)"
  using assms by (simp add: run_task_def)

lemma run_task_forced:
  assumes "run_task ev args context options paths t completed w = (res, w')"
    and "\<not> should_skip (key t) context" and "args_force args"
    and "TASK_IMPLEMENTATIONS (key t) \<noteq> None"
  shows "Invoke (key t) \<in> set (added w w')
     \<and> (\<forall>c'. res = Inr c' \<longrightarrow> c' (key t) = Some True)
     \<and> (\<not> dry_run options \<and> body ev (key t) = RunsToEnd
          \<longrightarrow> fs w' (task_marker paths (key t)) = Some (NotJson (now ev))
              \<and> WriteMarker (task_marker paths (key t)) (now ev) \<in> set (added w w'))
     \<and> (dry_run options \<longrightarrow> fs w' = fs w)
     \<and> (key t = ''conda'' \<and> body ev (key t) = ReturnsEarly \<longrightarrow> fs w' = fs w)"
  using assms
  by (auto simp: run_task_def world_simps impl_unfold added_def
      split: if_splits option.splits body_end.splits)

subsubsection \<open>The loop\<close>

text \<open>A relation between the start and the end of the loop holds when it holds for
  the empty loop, for a loop ended by an exception in its first iteration, and is
  carried from the rest of the loop over a first iteration that returns.\<close>

lemma run_tasks_rel:
  assumes run: "run_tasks ev args context options paths ts completed w = (res, w')"
    and nil: "\<And>c w. R [] c w (Inr c) w"
    and stop: "\<And>t rest c w e w1.
        run_task ev args context options paths t c w = (Inl e, w1)
        \<Longrightarrow> R (t # rest) c w (Inl e) w1"
    and step: "\<And>t rest c w c1 w1 r w2.
        run_task ev args context options paths t c w = (Inr c1, w1)
        \<Longrightarrow> run_tasks ev args context options paths rest c1 w1 = (r, w2)
        \<Longrightarrow> R rest c1 w1 r w2 \<Longrightarrow> R (t # rest) c w r w2"
  shows "R ts completed w res w'"
  using run
proof (induction ts arbitrary: completed w)
  case Nil
  then show ?case using nil by auto
next
  case (Cons t ts)
  obtain r1 w1 where s: "run_task ev args context options paths t completed w = (r1, w1)"
    by (cases "run_task ev args context options paths t completed w")
  show ?case
  proof (cases r1)
    case (Inl e)
    with Cons.prems s have "res = Inl e" "w' = w1" by simp_all
    with stop [of t completed w e w1 ts] s Inl show ?thesis by simp
  next
    case (Inr c1)
    with Cons.prems s have r: "run_tasks ev args context options paths ts c1 w1 = (res, w')"
      by simp
    from step [OF _ r Cons.IH [OF r]] s Inr show ?thesis by simp
  qed
qed

lemma run_tasks_prefix:
  assumes "run_tasks ev args context options paths ts completed w = (res, w')"
  shows "prefix (trace w) (trace w')"
proof (rule run_tasks_rel [OF assms, where R = "\<lambda>ts c w r w'. prefix (trace w) (trace w')"])
  fix t c w c1 w1 and w2 :: world
  assume "run_task ev args context options paths t c w = (Inr c1, w1)"
    and "prefix (trace w1) (trace w2)"
  then show "prefix (trace w) (trace w2)"
    using run_task_prefix prefix_order.trans by blast
qed (simp_all add: run_task_prefix)

lemma run_tasks_stdin:
  assumes "run_tasks ev args context options paths ts completed w = (res, w')"
  shows "stdin w' = stdin w"
proof (rule run_tasks_rel [OF assms, where R = "\<lambda>ts c w r w'. stdin w' = stdin w"])
  fix t c w c1 w1 and w2 :: world
  assume "run_task ev args context options paths t c w = (Inr c1, w1)"
    and "stdin w2 = stdin w1"
  then show "stdin w2 = stdin w" using run_task_world by fastforce
next
  fix t c w e w1
  assume "run_task ev args context options paths t c w = (Inl e, w1)"
  then show "stdin w1 = stdin w" using run_task_world by fastforce
qed simp

lemma run_tasks_dry_run_fs:
  assumes "run_tasks ev args context options paths ts completed w = (res, w')"
    and d: "dry_run options"
  shows "fs w' = fs w"
proof (rule run_tasks_rel [OF assms(1), where R = "\<lambda>ts c w r w'. fs w' = fs w"])
  fix t c w c1 w1 and w2 :: world
  assume "run_task ev args context options paths t c w = (Inr c1, w1)"
    and "fs w2 = fs w1"
  then show "fs w2 = fs w" using run_task_world d by fastforce
next
  fix t c w e w1
  assume "run_task ev args context options paths t c w = (Inl e, w1)"
  then show "fs w1 = fs w" using run_task_world d by fastforce
qed simp

lemma run_tasks_events:
  assumes "run_tasks ev args context options paths ts completed w = (res, w')"
  shows "set (added w w') \<subseteq> range Print \<union> range Invoke
           \<union> {WriteMarker p (now ev) | p. True}"
proof (rule run_tasks_rel [OF assms, where
      R = "\<lambda>ts c w r w'. set (added w w') \<subseteq> range Print \<union> range Invoke
             \<union> {WriteMarker p (now ev) | p. True}"])
  fix c w
  show "set (added w w) \<subseteq> range Print \<union> range Invoke \<union> {WriteMarker p (now ev) | p. True}"
    by (simp add: added_self)
next
  fix t c w e w1
  assume "run_task ev args context options paths t c w = (Inl e, w1)"
  from run_task_events [OF this]
  show "set (added w w1) \<subseteq> range Print \<union> range Invoke \<union> {WriteMarker p (now ev) | p. True}"
    by auto
next
  fix t rest c w c1 w1 r w2
  assume s: "run_task ev args context options paths t c w = (Inr c1, w1)"
    and r: "run_tasks ev args context options paths rest c1 w1 = (r, w2)"
    and ih: "set (added w1 w2) \<subseteq> range Print \<union> range Invoke
               \<union> {WriteMarker p (now ev) | p. True}"
  have "added w w2 = added w w1 @ added w1 w2"
    using added_trans run_task_prefix [OF s] run_tasks_prefix [OF r] by blast
  with run_task_events [OF s] ih
  show "set (added w w2) \<subseteq> range Print \<union> range Invoke \<union> {WriteMarker p (now ev) | p. True}"
    by auto
qed

lemma run_tasks_journal:
  assumes "run_tasks ev args context options paths ts completed w = (Inr c', w')"
  shows "c' k = completed k \<or> c' k = Some True"
proof -
  have "\<forall>c''. (Inr c' :: error + journal) = Inr c'' \<longrightarrow> (c'' k = completed k \<or> c'' k = Some True)"
  proof (rule run_tasks_rel [OF assms, where
        R = "\<lambda>ts c w r w'. \<forall>c''. r = Inr c'' \<longrightarrow> (c'' k = c k \<or> c'' k = Some True)"])
    fix t rest c w c1 w1 r w2
    assume s: "run_task ev args context options paths t c w = (Inr c1, w1)"
      and ih: "\<forall>c''. r = Inr c'' \<longrightarrow> (c'' k = c1 k \<or> c'' k = Some True)"
    from run_task_journal [OF s] have "c1 k = c k \<or> c1 k = Some True" by auto
    with ih show "\<forall>c''. r = Inr c'' \<longrightarrow> (c'' k = c k \<or> c'' k = Some True)" by auto
  qed simp_all
  then show ?thesis by simp
qed

lemma run_task_fs_mono:
  assumes "run_task ev args context options paths t completed w = (res, w')"
    and "fs w p \<noteq> None"
  shows "fs w' p \<noteq> None"
  using run_task_world [OF assms(1)] assms(2) by auto

lemma run_task_true_stays:
  assumes "run_task ev args context options paths t completed w = (Inr c', w')"
    and "completed k = Some True"
  shows "c' k = Some True"
  using run_task_journal [OF assms(1)] assms(2) by auto

lemma run_tasks_invoked:
  assumes "run_tasks ev args context options paths ts completed w = (res, w')"
    and "Invoke k \<in> set (added w w')"
  shows "\<not> should_skip k context
     \<and> (args_force args
          \<or> (\<not> is_task_marked_complete paths k w \<and> completed k \<noteq> Some True))
     \<and> (\<forall>c'. res = Inr c' \<longrightarrow> c' k = Some True)
     \<and> (\<forall>e. body ev k = Raises e \<longrightarrow> res = Inl e)"
proof -
  let ?Q = "\<lambda>c w (r :: error + journal). \<not> should_skip k context
     \<and> (args_force args \<or> (\<not> is_task_marked_complete paths k w \<and> c k \<noteq> Some True))
     \<and> (\<forall>c'. r = Inr c' \<longrightarrow> c' k = Some True)
     \<and> (\<forall>e. body ev k = Raises e \<longrightarrow> r = Inl e)"
  have "Invoke k \<in> set (added w w') \<longrightarrow> ?Q completed w res"
  proof (rule run_tasks_rel [OF assms(1), where
        R = "\<lambda>ts c w r w'. Invoke k \<in> set (added w w') \<longrightarrow> ?Q c w r"])
    fix c w
    show "Invoke k \<in> set (added w w) \<longrightarrow> ?Q c w (Inr c)"
      by (simp add: added_self)
  next
    fix t c w e w1
    assume s: "run_task ev args context options paths t c w = (Inl e, w1)"
    show "Invoke k \<in> set (added w w1) \<longrightarrow> ?Q c w (Inl e)"
      using run_task_invoked [OF s] by blast
  next
    fix t rest c w c1 w1 r w2
    assume s: "run_task ev args context options paths t c w = (Inr c1, w1)"
      and r: "run_tasks ev args context options paths rest c1 w1 = (r, w2)"
      and ih: "Invoke k \<in> set (added w1 w2) \<longrightarrow> ?Q c1 w1 r"
    have split: "added w w2 = added w w1 @ added w1 w2"
      using added_trans run_task_prefix [OF s] run_tasks_prefix [OF r] by blast
    show "Invoke k \<in> set (added w w2) \<longrightarrow> ?Q c w r"
    proof
      assume "Invoke k \<in> set (added w w2)"
      with split consider (first) "Invoke k \<in> set (added w w1)"
        | (later) "Invoke k \<in> set (added w1 w2)" by auto
      then show "?Q c w r"
      proof cases
        case first
        from run_task_invoked [OF s first]
        have a: "\<not> should_skip k context"
          and b: "args_force args
                  \<or> (\<not> is_task_marked_complete paths k w \<and> c k \<noteq> Some True)"
          and c1k: "c1 k = Some True"
          and nr: "\<forall>e. body ev k \<noteq> Raises e"
          by auto
        have "\<forall>c'. r = Inr c' \<longrightarrow> c' k = Some True"
        proof (intro allI impI)
          fix c'
          assume "r = Inr c'"
          with r have "run_tasks ev args context options paths rest c1 w1 = (Inr c', w2)"
            by simp
          from run_tasks_journal [OF this, of k] c1k show "c' k = Some True" by auto
        qed
        with a b nr show ?thesis by simp
      next
        case later
        with ih have q: "?Q c1 w1 r" by simp
        have m: "is_task_marked_complete paths k w \<Longrightarrow> is_task_marked_complete paths k w1"
          using run_task_fs_mono [OF s] by (simp add: is_task_marked_complete_def)
        have j: "c k = Some True \<Longrightarrow> c1 k = Some True"
          using run_task_true_stays [OF s] by simp
        from q m j show ?thesis by blast
      qed
    qed
  qed
  with assms(2) show ?thesis by simp
qed

lemma run_tasks_raised:
  assumes "run_tasks ev args context options paths ts completed w = (Inl e, w')"
  shows "\<exists>k. Invoke k \<in> set (added w w') \<and> body ev k = Raises e"
proof -
  have "\<forall>e'. (Inl e :: error + journal) = Inl e'
          \<longrightarrow> (\<exists>k. Invoke k \<in> set (added w w') \<and> body ev k = Raises e')"
  proof (rule run_tasks_rel [OF assms, where
        R = "\<lambda>ts c w r w'. \<forall>e'. r = Inl e'
               \<longrightarrow> (\<exists>k. Invoke k \<in> set (added w w') \<and> body ev k = Raises e')"])
    fix t c w e w1
    assume s: "run_task ev args context options paths t c w = (Inl e, w1)"
    show "\<forall>e'. Inl e = Inl e'
            \<longrightarrow> (\<exists>k. Invoke k \<in> set (added w w1) \<and> body ev k = Raises e')"
      using run_task_raised [OF s] by auto
  next
    fix t rest c w c1 w1 r w2
    assume s: "run_task ev args context options paths t c w = (Inr c1, w1)"
      and r: "run_tasks ev args context options paths rest c1 w1 = (r, w2)"
      and ih: "\<forall>e'. r = Inl e'
                 \<longrightarrow> (\<exists>k. Invoke k \<in> set (added w1 w2) \<and> body ev k = Raises e')"
    have "added w w2 = added w w1 @ added w1 w2"
      using added_trans run_task_prefix [OF s] run_tasks_prefix [OF r] by blast
    with ih show "\<forall>e'. r = Inl e'
                 \<longrightarrow> (\<exists>k. Invoke k \<in> set (added w w2) \<and> body ev k = Raises e')"
      by auto
  qed simp
  then show ?thesis by simp
qed

text \<open>What the loop leaves alone for a key that no iteration works on: a key that the
  context rules skip, or the key of no task in the list.\<close>

lemma run_task_untouched:
  assumes "run_task ev args context options paths t completed w = (res, w')"
    and "should_skip k context \<or> key t \<noteq> k"
  shows "Invoke k \<notin> set (added w w')
     \<and> (\<forall>s. WriteMarker (task_marker paths k) s \<notin> set (added w w'))
     \<and> fs w' (task_marker paths k) = fs w (task_marker paths k)
     \<and> (\<forall>c'. res = Inr c' \<longrightarrow> c' k = completed k)"
  using assms
  by (auto simp: run_task_def world_simps impl_unfold added_def task_marker_inj
      split: if_splits option.splits body_end.splits)

lemma run_tasks_untouched:
  assumes "run_tasks ev args context options paths ts completed w = (res, w')"
    and "should_skip k context \<or> k \<notin> key ` set ts"
  shows "Invoke k \<notin> set (added w w')
     \<and> (\<forall>s. WriteMarker (task_marker paths k) s \<notin> set (added w w'))
     \<and> fs w' (task_marker paths k) = fs w (task_marker paths k)
     \<and> (\<forall>c'. res = Inr c' \<longrightarrow> c' k = completed k)"
proof -
  let ?U = "\<lambda>c w (r :: error + journal) w'. Invoke k \<notin> set (added w w')
     \<and> (\<forall>s. WriteMarker (task_marker paths k) s \<notin> set (added w w'))
     \<and> fs w' (task_marker paths k) = fs w (task_marker paths k)
     \<and> (\<forall>c'. r = Inr c' \<longrightarrow> c' k = c k)"
  have "(should_skip k context \<or> k \<notin> key ` set ts) \<longrightarrow> ?U completed w res w'"
  proof (rule run_tasks_rel [OF assms(1), where
        R = "\<lambda>ts c w r w'. (should_skip k context \<or> k \<notin> key ` set ts) \<longrightarrow> ?U c w r w'"])
    fix c w
    show "(should_skip k context \<or> k \<notin> key ` set []) \<longrightarrow> ?U c w (Inr c) w"
      by (simp add: added_self)
  next
    fix t rest c w e w1
    assume s: "run_task ev args context options paths t c w = (Inl e, w1)"
    show "(should_skip k context \<or> k \<notin> key ` set (t # rest)) \<longrightarrow> ?U c w (Inl e) w1"
      using run_task_untouched [OF s, of k] by auto
  next
    fix t rest c w c1 w1 r w2
    assume s: "run_task ev args context options paths t c w = (Inr c1, w1)"
      and r: "run_tasks ev args context options paths rest c1 w1 = (r, w2)"
      and ih: "(should_skip k context \<or> k \<notin> key ` set rest) \<longrightarrow> ?U c1 w1 r w2"
    have split: "added w w2 = added w w1 @ added w1 w2"
      using added_trans run_task_prefix [OF s] run_tasks_prefix [OF r] by blast
    show "(should_skip k context \<or> k \<notin> key ` set (t # rest)) \<longrightarrow> ?U c w r w2"
    proof
      assume a: "should_skip k context \<or> k \<notin> key ` set (t # rest)"
      then have "should_skip k context \<or> key t \<noteq> k" by auto
      from run_task_untouched [OF s this] have u1: "?U c w (Inr c1) w1" .
      from a ih have u2: "?U c1 w1 r w2" by auto
      from u1 u2 split show "?U c w r w2" by auto
    qed
  qed
  with assms(2) show ?thesis by simp
qed

subsection \<open>What happens before the loop\<close>

lemma load_state_world:
  assumes "load_state p w = (r, w1)"
  shows "fs w1 = fs w \<and> stdin w1 = stdin w \<and> prefix (trace w) (trace w1)
     \<and> set (added w w1) \<subseteq> range Print"
  using assms
  by (auto simp: load_state_def print_def emit_def added_def
      split: option.splits content.splits)

lemma safety_world:
  assumes "ensure_command_execution_safety args w = (options, w1)"
  shows "fs w1 = fs w \<and> prefix (trace w) (trace w1) \<and> set (added w w1) \<subseteq> range Print
     \<and> dry_run options = (args_dry_run args \<or> \<not> args_force args)
     \<and> force options = args_force args"
  using assms
  by (auto simp: ensure_command_execution_safety_def prompt_yes_no_def print_def emit_def
        added_def Let_def
      split: prod.splits if_splits)

lemma confirm_paths_world:
  assumes "confirm_paths defaults ac w = (r, w1)"
  shows "fs w1 = fs w \<and> prefix (trace w) (trace w1) \<and> set (added w w1) \<subseteq> range Print"
  using assms
  by (auto simp: confirm_paths_def print_def emit_def added_def Let_def
      split: prod.splits if_splits sum.splits list.splits)

text \<open>The two ways a run of \<open>main\<close> can go: it ends before the loop with an
  exception, having printed at most; or it reaches the loop, and ends after it.\<close>

lemma print_world:
  "fs (print t w) = fs w \<and> stdin (print t w) = stdin w
   \<and> trace (print t w) = trace w @ [Print t]"
  by (simp add: print_def emit_def)

lemma main_cases:
  assumes m: "main ev args w = (r, w')"
  obtains (early) e where "r = Inl e" "fs w' = fs w" "prefix (trace w) (trace w')"
      "set (added w w') \<subseteq> range Print"
  | (loop) state w0 "context" options paths ts w4 res w5 where
      "load_state (Some (state_path args)) w = (Inr state, w0)"
      "dry_run options = (args_dry_run args \<or> \<not> args_force args)"
      "fs w4 = fs w" "prefix (trace w) (trace w4)" "set (added w w4) \<subseteq> range Print"
      "run_tasks ev args context options paths ts (Map.empty ++ state) w4 = (res, w5)"
      "(\<exists>e. res = Inl e \<and> r = Inl e \<and> w' = emit CloseLog w5)
       \<or> (\<exists>c' text. res = Inr c' \<and> r = Inr 0
             \<and> w' = print_summary text options
                    (save_state (Some (save_target args)) c' (emit CloseLog w5)))"
proof -
  obtain r0 w0 where l: "load_state (Some (state_path args)) w = (r0, w0)"
    by (cases "load_state (Some (state_path args)) w")
  note lw = load_state_world [OF l]
  show thesis
  proof (cases r0)
    case (Inl e)
    with m l have "r = Inl e" "w' = w0" by (simp_all add: main_def)
    with lw show thesis by (intro early [of e]) simp_all
  next
    case st: (Inr state)
    define w1 where
      "w1 = print (''Detected architecture: '' @ machine ev)
              (print (''Detected OS: '' @ os_name ev @ '' '' @ os_version ev) w0)"
    have t1: "trace w1 = trace w0
                @ [Print (''Detected OS: '' @ os_name ev @ '' '' @ os_version ev),
                   Print (''Detected architecture: '' @ machine ev)]"
      and f1: "fs w1 = fs w0"
      by (simp_all add: w1_def print_world)
    from lw t1 have p1: "prefix (trace w) (trace w1)"
      by (auto simp: prefix_def)
    from lw t1 have a1: "set (added w w1) \<subseteq> range Print"
      by (auto simp: prefix_def added_def)
    show thesis
    proof (cases "resolve_context args (args_yes args) (\<not> args_no_menu args) ev")
      case (Inl e)
      with m l st have "r = Inl e" "w' = w1" by (simp_all add: main_def w1_def)
      with lw f1 p1 a1 show thesis by (intro early [of e]) simp_all
    next
      case cx: (Inr cx)
      show thesis
      proof (cases "resolve_tasks args cx (args_yes args) (\<not> args_no_menu args) ev")
        case (Inl e)
        with m l st cx have "r = Inl e" "w' = w1" by (simp_all add: main_def w1_def)
        with lw f1 p1 a1 show thesis by (intro early [of e]) simp_all
      next
        case ix: (Inr indices)
        obtain options w2 where s: "ensure_command_execution_safety args w1 = (options, w2)"
          by (cases "ensure_command_execution_safety args w1")
        note sw = safety_world [OF s]
        let ?target = "if cx = ROOT then None else Some (current_user ev)"
        obtain rp w3 where
          c: "confirm_paths (detect_default_paths ev cx ?target) (auto_confirm options) w2
                = (rp, w3)"
          by (cases "confirm_paths (detect_default_paths ev cx ?target)
                       (auto_confirm options) w2")
        note cw = confirm_paths_world [OF c]
        have f3: "fs w3 = fs w" using lw f1 sw cw by simp
        have p3: "prefix (trace w) (trace w3)"
          using p1 sw cw by (meson prefix_order.trans)
        have "added w w3 = added w w1 @ added w1 w2 @ added w2 w3"
          using p1 sw cw by (metis added_trans prefix_order.trans)
        then have a3: "set (added w w3) \<subseteq> range Print"
          using a1 sw cw by auto
        show thesis
        proof (cases rp)
          case (Inl e)
          with m l st cx ix s c have "r = Inl e" "w' = w3"
            by (simp_all add: main_def w1_def)
          with f3 p3 a3 show thesis by (intro early [of e]) simp_all
        next
          case pa: (Inr paths)
          define w4 where
            "w4 = print (''Logging commands to '' @ prepare_logger ev (args_log_file args)) w3"
          have t4: "trace w4 = trace w3
                @ [Print (''Logging commands to '' @ prepare_logger ev (args_log_file args))]"
            and f4: "fs w4 = fs w"
            using f3 by (simp_all add: w4_def print_world)
          from p3 t4 have p4: "prefix (trace w) (trace w4)"
            by (auto simp: prefix_def)
          from p3 t4 a3 have a4: "set (added w w4) \<subseteq> range Print"
            by (auto simp: prefix_def added_def)
          show thesis
          proof (cases "order_tasks_from_indices indices")
            case (Inl e)
            with m l st cx ix s c pa have "r = Inl e" "w' = w4"
              by (simp_all add: main_def w1_def w4_def Let_def)
            with f4 p4 a4 show thesis by (intro early [of e]) simp_all
          next
            case ot: (Inr ts)
            obtain res w5 where
              rt: "run_tasks ev args cx options paths ts (Map.empty ++ state) w4 = (res, w5)"
              by (cases "run_tasks ev args cx options paths ts (Map.empty ++ state) w4")
            have fin: "(\<exists>e. res = Inl e \<and> r = Inl e \<and> w' = emit CloseLog w5)
                \<or> (\<exists>c' text. res = Inr c' \<and> r = Inr 0
                      \<and> w' = print_summary text options
                             (save_state (Some (save_target args)) c' (emit CloseLog w5)))"
              using m l st cx ix s c pa ot rt
              by (cases res) (auto simp: main_def w1_def w4_def Let_def)
            from l st sw f4 p4 a4 rt fin show thesis
              by (intro loop [of state w0 options w4 cx paths ts res w5]) simp_all
          qed
        qed
      qed
    qed
  qed
qed

subsection \<open>Context rules come first\<close>

lemmas eval_simps =
  main_def state_path_def save_target_def load_state_def save_state_def
  resolve_context_def resolve_tasks_def requested_tokens_def given_def
  run_menu_def run_multi_menu_def defaults_for_context_def
  ensure_command_execution_safety_def prompt_yes_no_def
  confirm_paths_def detect_default_paths_def
  order_tasks_from_indices_def py_index_def TASKS_def TASK_INDEX_BY_KEY_def
  run_task_def should_skip_def is_task_marked_complete_def task_marker_def
  MARKER_DIR_NAME_def path_join_def TASK_IMPLEMENTATIONS_def
  task_os_settings_def task_ssh_setup_def task_custom_zsh_def task_miniconda_def
  task_git_setup_def mark_task_complete_def emit_def print_def write_file_def
  added_def ROOT_def EXISTING_USER_def LOCAL_def CONTEXT_VALUE_BY_INDEX_def
  py_strip_def py_lower_def py_isspace_def Let_def
  print_summary_def prepare_logger_def
  example_env_def example_args_def example_world_def git_marker_def

text \<open>
  Claim C4. The context rule (the os task under the existing-user context, the ssh
  task under the local context) is the first test of an iteration: whatever the force
  flag, the journal and the markers are, the iteration for such a task only prints
  the notice and leaves the journal as it is. Over the whole loop, for any list of
  tasks: the body of such a task is never called, its marker is neither written nor
  changed, and its journal entry at the end is the one at the start.
\<close>

theorem context_skip_precedence:
  assumes "(context = EXISTING_USER \<and> k = ''os'') \<or> (context = LOCAL \<and> k = ''ssh'')"
  shows "(key t = k \<longrightarrow>
            run_task ev args context options paths t completed w
              = (Inr completed,
                 print (''Skipping '' @ title t @ '' due to context rules.'') w))
     \<and> (run_tasks ev args context options paths ts completed w = (res, w') \<longrightarrow>
            Invoke k \<notin> set (added w w')
          \<and> (\<forall>s. WriteMarker (task_marker paths k) s \<notin> set (added w w'))
          \<and> fs w' (task_marker paths k) = fs w (task_marker paths k)
          \<and> (\<forall>c'. res = Inr c' \<longrightarrow> c' k = completed k))"
proof -
  from assms have s: "should_skip k context"
    by (auto simp: should_skip_def)
  have one: "key t = k \<longrightarrow>
            run_task ev args context options paths t completed w
              = (Inr completed,
                 print (''Skipping '' @ title t @ '' due to context rules.'') w)"
    using s run_task_context_skip by blast
  have all: "run_tasks ev args context options paths ts completed w = (res, w') \<longrightarrow>
            Invoke k \<notin> set (added w w')
          \<and> (\<forall>s. WriteMarker (task_marker paths k) s \<notin> set (added w w'))
          \<and> fs w' (task_marker paths k) = fs w (task_marker paths k)
          \<and> (\<forall>c'. res = Inr c' \<longrightarrow> c' k = completed k)"
    using s run_tasks_untouched by blast
  from one all show ?thesis by (rule conjI)
qed

text \<open>The ssh task, selected under the local context with \<^verbatim>\<open>--force\<close>, with a marker
  on disk and a journal entry: the notice is printed, the body is not called, the
  marker and the entry stay as they were, and the git task after it runs.\<close>

theorem context_skip_precedence_witness:
  "should_skip ''ssh'' LOCAL
   \<and> fst (run_task example_env (example_args\<lparr>args_force := True\<rparr>) LOCAL
        \<lparr>dry_run = False, sudo_allowed = True, force = True, auto_confirm = True\<rparr>
        (detect_default_paths example_env LOCAL (Some ''op'')) (TASKS ! 1)
        [''ssh'' \<mapsto> False]
        (example_world\<lparr>fs := [''/home/op/.server_init_markers/ssh.done''
                                  \<mapsto> NotJson ''2025-01-01T00:00:00'']\<rparr>))
       = Inr [''ssh'' \<mapsto> False]
   \<and> trace (snd (run_task example_env (example_args\<lparr>args_force := True\<rparr>) LOCAL
        \<lparr>dry_run = False, sudo_allowed = True, force = True, auto_confirm = True\<rparr>
        (detect_default_paths example_env LOCAL (Some ''op'')) (TASKS ! 1)
        [''ssh'' \<mapsto> False]
        (example_world\<lparr>fs := [''/home/op/.server_init_markers/ssh.done''
                                  \<mapsto> NotJson ''2025-01-01T00:00:00'']\<rparr>)))
       = [Print ''Skipping SSH setup due to context rules.'']
   \<and> Invoke ''ssh'' \<notin> set (trace (snd (run_tasks example_env
        (example_args\<lparr>args_force := True\<rparr>) LOCAL
        \<lparr>dry_run = False, sudo_allowed = True, force = True, auto_confirm = True\<rparr>
        (detect_default_paths example_env LOCAL (Some ''op'')) [TASKS ! 1, TASKS ! 4]
        [''ssh'' \<mapsto> False]
        (example_world\<lparr>fs := [''/home/op/.server_init_markers/ssh.done''
                                  \<mapsto> NotJson ''2025-01-01T00:00:00'']\<rparr>))))
   \<and> Invoke ''git'' \<in> set (trace (snd (run_tasks example_env
        (example_args\<lparr>args_force := True\<rparr>) LOCAL
        \<lparr>dry_run = False, sudo_allowed = True, force = True, auto_confirm = True\<rparr>
        (detect_default_paths example_env LOCAL (Some ''op'')) [TASKS ! 1, TASKS ! 4]
        [''ssh'' \<mapsto> False]
        (example_world\<lparr>fs := [''/home/op/.server_init_markers/ssh.done''
                                  \<mapsto> NotJson ''2025-01-01T00:00:00'']\<rparr>))))"
  using context_skip_precedence [of LOCAL "''ssh''" "TASKS ! 1" example_env
      "example_args\<lparr>args_force := True\<rparr>"
      "\<lparr>dry_run = False, sudo_allowed = True, force = True, auto_confirm = True\<rparr>"
      "detect_default_paths example_env LOCAL (Some ''op'')" "[''ssh'' \<mapsto> False]"
      "example_world\<lparr>fs := [''/home/op/.server_init_markers/ssh.done''
                                  \<mapsto> NotJson ''2025-01-01T00:00:00'']\<rparr>"
      "[TASKS ! 1, TASKS ! 4]"]
  by (simp add: eval_simps)

subsection \<open>Completion skips and the force flag\<close>

text \<open>
  Claim C5, as amended. For a task that the context rules do not skip:
  \<^item> without \<^verbatim>\<open>--force\<close>, when its marker is on disk or its journal entry is true,
    its body is not called, neither in its own iteration nor anywhere in a loop that
    starts from that state;
  \<^item> with \<^verbatim>\<open>--force\<close>, its body is called whatever the marker and the journal say;
    when the body returns, the journal entry is set to true; the marker is written
    again, with the current time, when the run is not a dry run and the body runs to
    its end; in a dry run (\<^verbatim>\<open>--force\<close> together with \<^verbatim>\<open>--dry-run\<close>), and when the
    body of the conda task returns early, the file store is left as it is.
\<close>

theorem completion_skip_and_force:
  assumes "\<not> should_skip (key t) context"
    and "run_task ev args context options paths t completed w = (res, w')"
    and "run_tasks ev args context options paths ts completed w = (res2, w2)"
  shows "(\<not> args_force args
          \<and> (is_task_marked_complete paths (key t) w \<or> completed (key t) = Some True)
          \<longrightarrow> Invoke (key t) \<notin> set (added w w') \<and> Invoke (key t) \<notin> set (added w w2))
     \<and> (args_force args \<and> TASK_IMPLEMENTATIONS (key t) \<noteq> None
          \<longrightarrow> Invoke (key t) \<in> set (added w w')
            \<and> (\<forall>c'. res = Inr c' \<longrightarrow> c' (key t) = Some True)
            \<and> (\<not> dry_run options \<and> body ev (key t) = RunsToEnd
                 \<longrightarrow> fs w' (task_marker paths (key t)) = Some (NotJson (now ev))
                   \<and> WriteMarker (task_marker paths (key t)) (now ev) \<in> set (added w w'))
            \<and> (dry_run options \<longrightarrow> fs w' = fs w)
            \<and> (key t = ''conda'' \<and> body ev (key t) = ReturnsEarly \<longrightarrow> fs w' = fs w))"
proof -
  have skip: "\<not> args_force args
          \<and> (is_task_marked_complete paths (key t) w \<or> completed (key t) = Some True)
          \<longrightarrow> Invoke (key t) \<notin> set (added w w') \<and> Invoke (key t) \<notin> set (added w w2)"
    using run_task_invoked [OF assms(2), of "key t"]
      run_tasks_invoked [OF assms(3), of "key t"] by blast
  have forced: "args_force args \<and> TASK_IMPLEMENTATIONS (key t) \<noteq> None
          \<longrightarrow> Invoke (key t) \<in> set (added w w')
            \<and> (\<forall>c'. res = Inr c' \<longrightarrow> c' (key t) = Some True)
            \<and> (\<not> dry_run options \<and> body ev (key t) = RunsToEnd
                 \<longrightarrow> fs w' (task_marker paths (key t)) = Some (NotJson (now ev))
                   \<and> WriteMarker (task_marker paths (key t)) (now ev) \<in> set (added w w'))
            \<and> (dry_run options \<longrightarrow> fs w' = fs w)
            \<and> (key t = ''conda'' \<and> body ev (key t) = ReturnsEarly \<longrightarrow> fs w' = fs w)"
    using run_task_forced [OF assms(2) assms(1)] by blast
  from skip forced show ?thesis by (rule conjI)
qed

text \<open>The git task under the root context, with \<^verbatim>\<open>--force\<close> and without
  \<^verbatim>\<open>--dry-run\<close>, an old marker on disk and a true journal entry: the body is called
  and the marker holds the current time afterwards.\<close>

theorem completion_skip_and_force_witness:
  "\<not> should_skip (key (TASKS ! 4)) ROOT
   \<and> args_force (example_args\<lparr>args_force := True\<rparr>)
   \<and> Invoke ''git'' \<in> set (added
        (example_world\<lparr>fs := [git_marker \<mapsto> NotJson ''2025-01-01T00:00:00'']\<rparr>)
        (snd (run_task example_env (example_args\<lparr>args_force := True\<rparr>) ROOT
           \<lparr>dry_run = False, sudo_allowed = True, force = True, auto_confirm = True\<rparr>
           (detect_default_paths example_env ROOT None) (TASKS ! 4) [''git'' \<mapsto> True]
           (example_world\<lparr>fs := [git_marker \<mapsto> NotJson ''2025-01-01T00:00:00'']\<rparr>))))
   \<and> fs (snd (run_task example_env (example_args\<lparr>args_force := True\<rparr>) ROOT
           \<lparr>dry_run = False, sudo_allowed = True, force = True, auto_confirm = True\<rparr>
           (detect_default_paths example_env ROOT None) (TASKS ! 4) [''git'' \<mapsto> True]
           (example_world\<lparr>fs := [git_marker \<mapsto> NotJson ''2025-01-01T00:00:00'']\<rparr>)))
        git_marker = Some (NotJson ''2026-11-04T09:00:00'')"
proof -
  let ?args = "example_args\<lparr>args_force := True\<rparr>"
  let ?opts = "\<lparr>dry_run = False, sudo_allowed = True, force = True, auto_confirm = True\<rparr>"
  let ?paths = "detect_default_paths example_env ROOT None"
  let ?w = "example_world\<lparr>fs := [git_marker \<mapsto> NotJson ''2025-01-01T00:00:00'']\<rparr>"
  let ?one = "run_task example_env ?args ROOT ?opts ?paths (TASKS ! 4) [''git'' \<mapsto> True] ?w"
  let ?all = "run_tasks example_env ?args ROOT ?opts ?paths [TASKS ! 4] [''git'' \<mapsto> True] ?w"
  have h1: "\<not> should_skip (key (TASKS ! 4)) ROOT"
    by (simp add: eval_simps)
  have h2: "?one = (fst ?one, snd ?one)" and h3: "?all = (fst ?all, snd ?all)"
    by simp_all
  have pre: "args_force ?args \<and> TASK_IMPLEMENTATIONS (key (TASKS ! 4)) \<noteq> None"
    by (simp add: eval_simps)
  have pre2: "\<not> dry_run ?opts \<and> body example_env (key (TASKS ! 4)) = RunsToEnd"
    by (simp add: eval_simps)
  note c = completion_skip_and_force [OF h1 h2 h3, THEN conjunct2, rule_format, OF pre]
  from c have i: "Invoke (key (TASKS ! 4)) \<in> set (added ?w (snd ?one))"
    by (rule conjunct1)
  from c have "\<not> dry_run ?opts \<and> body example_env (key (TASKS ! 4)) = RunsToEnd
      \<longrightarrow> fs (snd ?one) (task_marker ?paths (key (TASKS ! 4)))
            = Some (NotJson (now example_env))
          \<and> WriteMarker (task_marker ?paths (key (TASKS ! 4))) (now example_env)
              \<in> set (added ?w (snd ?one))"
    by (elim conjE)
  with pre2 have m: "fs (snd ?one) (task_marker ?paths (key (TASKS ! 4)))
            = Some (NotJson (now example_env))"
    by (elim impE conjE) (rule conjI)
  have k: "key (TASKS ! 4) = ''git''" "task_marker ?paths ''git'' = git_marker"
    "now example_env = ''2026-11-04T09:00:00''"
    by (simp_all add: eval_simps)
  from i m have "Invoke ''git'' \<in> set (added ?w (snd ?one))"
    and "fs (snd ?one) git_marker = Some (NotJson ''2026-11-04T09:00:00'')"
    unfolding k by simp_all
  with h1 pre show ?thesis by (intro conjI) simp_all
qed

text \<open>
  The claim as it was stated fails on the marker: with \<^verbatim>\<open>--force\<close> and \<^verbatim>\<open>--dry-run\<close>
  both given, the body of the git task is called and returns, the run ends with
  status 0, and the old marker is still what the file holds.
\<close>

theorem force_marker_rewrite_counterexample:
  "fst (main example_env (example_args\<lparr>args_force := True, args_dry_run := True\<rparr>)
        (example_world\<lparr>fs := [git_marker \<mapsto> NotJson ''2025-01-01T00:00:00'']\<rparr>)) = Inr 0
   \<and> Invoke ''git'' \<in> set (trace (snd
        (main example_env (example_args\<lparr>args_force := True, args_dry_run := True\<rparr>)
          (example_world\<lparr>fs := [git_marker \<mapsto> NotJson ''2025-01-01T00:00:00'']\<rparr>))))
   \<and> fs (snd
        (main example_env (example_args\<lparr>args_force := True, args_dry_run := True\<rparr>)
          (example_world\<lparr>fs := [git_marker \<mapsto> NotJson ''2025-01-01T00:00:00'']\<rparr>)))
        git_marker = Some (NotJson ''2025-01-01T00:00:00'')
   \<and> WriteMarker git_marker (now example_env) \<notin> set (trace (snd
        (main example_env (example_args\<lparr>args_force := True, args_dry_run := True\<rparr>)
          (example_world\<lparr>fs := [git_marker \<mapsto> NotJson ''2025-01-01T00:00:00'']\<rparr>))))"
  by (simp add: eval_simps)

subsection \<open>Dry runs\<close>

lemma run_task_dry_events:
  assumes "run_task ev args context options paths t completed w = (res, w')"
    and "dry_run options"
  shows "set (added w w') \<subseteq> range Print \<union> range Invoke"
  using assms
  by (auto simp: run_task_def world_simps impl_unfold added_def
      split: if_splits option.splits body_end.splits)

lemma run_tasks_dry_events:
  assumes "run_tasks ev args context options paths ts completed w = (res, w')"
    and d: "dry_run options"
  shows "set (added w w') \<subseteq> range Print \<union> range Invoke"
proof (rule run_tasks_rel [OF assms(1), where
      R = "\<lambda>ts c w r w'. set (added w w') \<subseteq> range Print \<union> range Invoke"])
  fix c w
  show "set (added w w) \<subseteq> range Print \<union> range Invoke"
    by (simp add: added_self)
next
  fix t c w e w1
  assume "run_task ev args context options paths t c w = (Inl e, w1)"
  from run_task_dry_events [OF this d]
  show "set (added w w1) \<subseteq> range Print \<union> range Invoke" .
next
  fix t rest c w c1 w1 r w2
  assume s: "run_task ev args context options paths t c w = (Inr c1, w1)"
    and r: "run_tasks ev args context options paths rest c1 w1 = (r, w2)"
    and ih: "set (added w1 w2) \<subseteq> range Print \<union> range Invoke"
  have "added w w2 = added w w1 @ added w1 w2"
    using added_trans run_task_prefix [OF s] run_tasks_prefix [OF r] by blast
  with run_task_dry_events [OF s d] ih
  show "set (added w w2) \<subseteq> range Print \<union> range Invoke"
    by auto
qed

text \<open>The events of a run of \<open>main\<close> that reaches the loop, in their order.\<close>

lemma main_added:
  assumes "prefix (trace w) (trace w3)"
    and "run_tasks ev args context options paths ts c w3 = (res, w4)"
  shows "added w (emit CloseLog w4) = added w w3 @ added w3 w4 @ [CloseLog]"
    and "\<exists>advice.
           added w (print_summary summary opts (save_state (Some p) c' (emit CloseLog w4)))
             = added w w3 @ added w3 w4
               @ [CloseLog, WriteJournal p c', Print summary, Print advice]"
proof -
  from run_tasks_prefix [OF assms(2)] assms(1) obtain a b where
    "trace w3 = trace w @ a" "trace w4 = trace w3 @ b"
    by (auto simp: prefix_def)
  then show "added w (emit CloseLog w4) = added w w3 @ added w3 w4 @ [CloseLog]"
    and "\<exists>advice.
           added w (print_summary summary opts (save_state (Some p) c' (emit CloseLog w4)))
             = added w w3 @ added w3 w4
               @ [CloseLog, WriteJournal p c', Print summary, Print advice]"
    by (simp_all add: added_def emit_def save_state_def write_file_def print_summary_def
          print_def)
qed

lemma main_dry_run:
  assumes m: "main ev args w = (r, w')"
    and d: "args_dry_run args \<or> \<not> args_force args"
  shows "(\<forall>p s. WriteMarker p s \<notin> set (added w w'))
     \<and> (\<forall>e. r = Inl e \<longrightarrow> fs w' = fs w)
     \<and> (\<forall>n. r = Inr n \<longrightarrow>
           (\<exists>j. fs w' = (fs w)(save_target args \<mapsto> JournalJson j)
               \<and> (\<forall>k. Invoke k \<in> set (added w w') \<longrightarrow> j k = Some True)))"
  using m
proof (cases rule: main_cases)
  case (early e)
  then show ?thesis by auto
next
  case (loop state w1 cx options paths ts w3 res w4)
  from loop(2) d have dr: "dry_run options" by simp
  note rt = loop(6)
  have f4: "fs w4 = fs w" using run_tasks_dry_run_fs [OF rt dr] loop(3) by simp
  have e4: "set (added w3 w4) \<subseteq> range Print \<union> range Invoke"
    by (rule run_tasks_dry_events [OF rt dr])
  from loop(7) show ?thesis
  proof (elim disjE exE conjE)
    fix e
    assume "res = Inl e" "r = Inl e" "w' = emit CloseLog w4"
    with main_added(1) [OF loop(4) rt] loop(5) e4 f4 show ?thesis
      by (auto simp: emit_def)
  next
    fix c' summary
    assume c: "res = Inr c'" "r = Inr 0"
      "w' = print_summary summary options
              (save_state (Some (save_target args)) c' (emit CloseLog w4))"
    from main_added(2) [OF loop(4) rt, where summary = summary and opts = options
        and p = "save_target args" and c' = c'] c(3)
    obtain advice where a: "added w w' = added w w3 @ added w3 w4
               @ [CloseLog, WriteJournal (save_target args) c', Print summary, Print advice]"
      by auto
    have i: "\<forall>k. Invoke k \<in> set (added w w') \<longrightarrow> c' k = Some True"
    proof (intro allI impI)
      fix k
      assume "Invoke k \<in> set (added w w')"
      with a loop(5) have "Invoke k \<in> set (added w3 w4)" by auto
      from run_tasks_invoked [OF rt this] c(1) show "c' k = Some True" by simp
    qed
    have f: "fs w' = (fs w)(save_target args \<mapsto> JournalJson c')"
      using c(3) f4
      by (simp add: save_state_def emit_def write_file_def print_summary_def print_def)
    from a loop(5) e4 have "\<forall>p s. WriteMarker p s \<notin> set (added w w')" by auto
    with i f c(2) show ?thesis by auto
  qed
qed

text \<open>
  Claim C3, as amended. In a dry run no completion marker is created:
  \<^verbatim>\<open>mark_task_complete\<close> only prints, the task loop leaves the file store as it is,
  and a whole run of \<open>main\<close> with \<open>dry_run\<close> resolved to true writes no marker. The
  journal is not held back by a dry run: when such a run ends normally, the only
  change to the file store is the saved journal, and that journal holds the value
  true for every task whose body was called.
\<close>

theorem dry_run_never_marks:
  assumes "dry_run options" and "args_dry_run args \<or> \<not> args_force args"
  shows "mark_task_complete ev paths k options w
           = print (''(dry-run) Would record completion marker at ''
                      @ task_marker paths k @ ''.'') w
     \<and> fs (snd (run_tasks ev args context options paths ts completed w)) = fs w
     \<and> (main ev args w = (r, w') \<longrightarrow>
           (\<forall>p s. WriteMarker p s \<notin> set (added w w'))
         \<and> (\<forall>e. r = Inl e \<longrightarrow> fs w' = fs w)
         \<and> (\<forall>n. r = Inr n \<longrightarrow>
               (\<exists>j. fs w' = (fs w)(save_target args \<mapsto> JournalJson j)
                   \<and> (\<forall>k. Invoke k \<in> set (added w w') \<longrightarrow> j k = Some True))))"
proof -
  have a: "mark_task_complete ev paths k options w
           = print (''(dry-run) Would record completion marker at ''
                      @ task_marker paths k @ ''.'') w"
    using assms(1) by (simp add: mark_task_complete_def)
  have b: "fs (snd (run_tasks ev args context options paths ts completed w)) = fs w"
    using run_tasks_dry_run_fs [OF _ assms(1)] by (metis prod.collapse)
  have c: "main ev args w = (r, w') \<longrightarrow>
           (\<forall>p s. WriteMarker p s \<notin> set (added w w'))
         \<and> (\<forall>e. r = Inl e \<longrightarrow> fs w' = fs w)
         \<and> (\<forall>n. r = Inr n \<longrightarrow>
               (\<exists>j. fs w' = (fs w)(save_target args \<mapsto> JournalJson j)
                   \<and> (\<forall>k. Invoke k \<in> set (added w w') \<longrightarrow> j k = Some True)))"
    using main_dry_run [OF _ assms(2)] by blast
  from a b c show ?thesis by (intro conjI)
qed

text \<open>The run \<^verbatim>\<open>--no-menu --yes --tasks git\<close> without \<^verbatim>\<open>--force\<close>: it ends with status
  0, no marker is written and the marker of the git task does not exist afterwards.\<close>

theorem dry_run_never_marks_witness:
  "dry_run \<lparr>dry_run = True, sudo_allowed = True, force = False, auto_confirm = True\<rparr>
   \<and> \<not> args_force example_args
   \<and> fst (main example_env example_args example_world) = Inr 0
   \<and> WriteMarker git_marker (now example_env)
        \<notin> set (added example_world (snd (main example_env example_args example_world)))
   \<and> fs (snd (main example_env example_args example_world)) git_marker = None"
proof -
  let ?opts = "\<lparr>dry_run = True, sudo_allowed = True, force = False, auto_confirm = True\<rparr>"
  let ?m = "main example_env example_args example_world"
  have h1: "dry_run ?opts" by simp
  have h2: "args_dry_run example_args \<or> \<not> args_force example_args"
    by (simp add: example_args_def)
  have h3: "?m = (fst ?m, snd ?m)" by simp
  have r: "fst ?m = Inr 0" by (simp add: eval_simps)
  note t = dry_run_never_marks [OF h1 h2, of example_env _ _ example_world _ _ _
      "fst ?m" "snd ?m", THEN conjunct2, THEN conjunct2, rule_format, OF h3]
  from t have nm: "\<forall>p s. WriteMarker p s
        \<notin> set (added example_world (snd ?m))"
    by (rule conjunct1)
  from t r obtain j where
    f: "fs (snd ?m) = (fs example_world)(save_target example_args \<mapsto> JournalJson j)"
    by auto
  have "fs (snd ?m) git_marker = None"
    unfolding f by (simp add: eval_simps)
  with nm r h2 show ?thesis
    by (simp add: example_args_def)
qed

text \<open>
  The claim as it was stated fails on the journal: the same run, a dry run, ends
  with the journal saved in the state file, and that journal records the git task as
  complete.
\<close>

theorem dry_run_journal_counterexample:
  "dry_run (fst (ensure_command_execution_safety example_args example_world))
   \<and> fst (main example_env example_args example_world) = Inr 0
   \<and> (\<exists>j. fs (snd (main example_env example_args example_world))
             ''.server_init_state.json'' = Some (JournalJson j)
          \<and> j ''git'' = Some True)"
  by (simp add: eval_simps)

subsection \<open>Saving the journal\<close>

text \<open>What a run of \<open>main\<close> that reaches the loop has added to the trace when it ends:
  printed lines, then the events of the loop, then the closing of the log and, if the
  loop returned, the saving of the journal and the printed summary.\<close>

lemma main_journal:
  assumes m: "main ev args w = (r, w')"
  shows "(\<forall>e. r = Inl e \<longrightarrow> (\<forall>p j. WriteJournal p j \<notin> set (added w w')))
     \<and> (\<forall>k e. Invoke k \<in> set (added w w') \<and> body ev k = Raises e
           \<longrightarrow> r = Inl e \<and> CloseLog \<in> set (added w w'))
     \<and> (\<forall>n. r = Inr n \<longrightarrow> n = 0
           \<and> (\<exists>j before after.
                 added w w' = before @ [CloseLog, WriteJournal (save_target args) j] @ after
                 \<and> (\<forall>p' j'. WriteJournal p' j' \<notin> set before)
                 \<and> set after \<subseteq> range Print
                 \<and> fs w' (save_target args) = Some (JournalJson j)
                 \<and> (\<forall>k. Invoke k \<in> set (added w w') \<longrightarrow> j k = Some True)))"
  using m
proof (cases rule: main_cases)
  case (early e)
  then show ?thesis by auto
next
  case (loop state w1 cx options paths ts w3 res w4)
  note rt = loop(6)
  note e4 = run_tasks_events [OF rt]
  from loop(7) show ?thesis
  proof (elim disjE exE conjE)
    fix e
    assume c: "res = Inl e" "r = Inl e" "w' = emit CloseLog w4"
    have a: "added w w' = added w w3 @ added w3 w4 @ [CloseLog]"
      using main_added(1) [OF loop(4) rt] c(3) by simp
    have nj: "\<forall>p j. WriteJournal p j \<notin> set (added w w')"
      using a loop(5) e4 by auto
    have "\<forall>k e'. Invoke k \<in> set (added w w') \<and> body ev k = Raises e'
           \<longrightarrow> r = Inl e' \<and> CloseLog \<in> set (added w w')"
    proof (intro allI impI, elim conjE)
      fix k e'
      assume "Invoke k \<in> set (added w w')" and b: "body ev k = Raises e'"
      with a loop(5) have "Invoke k \<in> set (added w3 w4)" by auto
      from run_tasks_invoked [OF rt this] b c(1) c(2) a
      show "r = Inl e' \<and> CloseLog \<in> set (added w w')" by simp
    qed
    with nj c(2) show ?thesis by simp
  next
    fix c' summary
    assume c: "res = Inr c'" "r = Inr 0"
      "w' = print_summary summary options
              (save_state (Some (save_target args)) c' (emit CloseLog w4))"
    from main_added(2) [OF loop(4) rt, where summary = summary and opts = options
        and p = "save_target args" and c' = c'] c(3)
    obtain advice where a: "added w w' = added w w3 @ added w3 w4
               @ [CloseLog, WriteJournal (save_target args) c', Print summary, Print advice]"
      by auto
    have i: "\<forall>k. Invoke k \<in> set (added w w')
               \<longrightarrow> c' k = Some True \<and> (\<forall>e. body ev k \<noteq> Raises e)"
    proof (intro allI impI)
      fix k
      assume "Invoke k \<in> set (added w w')"
      with a loop(5) have "Invoke k \<in> set (added w3 w4)" by auto
      from run_tasks_invoked [OF rt this] c(1)
      show "c' k = Some True \<and> (\<forall>e. body ev k \<noteq> Raises e)" by auto
    qed
    have f: "fs w' (save_target args) = Some (JournalJson c')"
      using c(3)
      by (simp add: save_state_def emit_def write_file_def print_summary_def print_def)
    have nb: "\<forall>p' j'. WriteJournal p' j' \<notin> set (added w w3 @ added w3 w4)"
      using loop(5) e4 by auto
    have l: "\<exists>before after.
           added w w' = before @ [CloseLog, WriteJournal (save_target args) c'] @ after
           \<and> (\<forall>p' j'. WriteJournal p' j' \<notin> set before)
           \<and> set after \<subseteq> range Print"
      using a nb
      by (intro exI [of _ "added w w3 @ added w3 w4"]
            exI [of _ "[Print summary, Print advice]"]) simp
    from i f l c(2) show ?thesis by auto
  qed
qed

text \<open>
  Claim C2, as amended. The journal is written once, by a run whose task loop
  returned, right after the log is closed; only the run summary is printed after
  it. Such a run ends with status 0 and the saved journal holds the value true for
  every task whose body was called. When a task body raises, the \<^verbatim>\<open>finally\<close> block
  closes the log and the exception leaves \<open>main\<close>: the run does not end normally
  and no journal is written.
\<close>

theorem journal_saved_after_loop_only:
  assumes "main ev args w = (r, w')"
  shows "(\<forall>e. r = Inl e \<longrightarrow> (\<forall>p j. WriteJournal p j \<notin> set (added w w')))
     \<and> (\<forall>k e. Invoke k \<in> set (added w w') \<and> body ev k = Raises e
           \<longrightarrow> r = Inl e \<and> CloseLog \<in> set (added w w'))
     \<and> (\<forall>n. r = Inr n \<longrightarrow> n = 0
           \<and> (\<exists>j before after.
                 added w w' = before @ [CloseLog, WriteJournal (save_target args) j] @ after
                 \<and> (\<forall>p' j'. WriteJournal p' j' \<notin> set before)
                 \<and> set after \<subseteq> range Print
                 \<and> fs w' (save_target args) = Some (JournalJson j)
                 \<and> (\<forall>k. Invoke k \<in> set (added w w') \<longrightarrow> j k = Some True)))"
  using assms by (rule main_journal)

text \<open>The run \<^verbatim>\<open>--no-menu --yes --tasks git\<close>: it ends with status 0 and the state
  file holds the journal, with the git task in it.\<close>

theorem journal_saved_after_loop_only_witness:
  "fst (main example_env example_args example_world) = Inr 0
   \<and> Invoke ''git'' \<in> set (added example_world
        (snd (main example_env example_args example_world)))
   \<and> (\<exists>j. fs (snd (main example_env example_args example_world))
             (save_target example_args) = Some (JournalJson j)
          \<and> j ''git'' = Some True)"
proof -
  let ?m = "main example_env example_args example_world"
  have h: "?m = (fst ?m, snd ?m)" by simp
  have r: "fst ?m = Inr 0" by (simp add: eval_simps)
  have i: "Invoke ''git'' \<in> set (added example_world (snd ?m))"
    by (simp add: eval_simps)
  from journal_saved_after_loop_only [OF h] r obtain j where
    f: "fs (snd ?m) (save_target example_args) = Some (JournalJson j)" and
    a: "\<forall>k. Invoke k \<in> set (added example_world (snd ?m)) \<longrightarrow> j k = Some True"
    by auto
  from a i have "j ''git'' = Some True" by simp
  with r i f show ?thesis by (intro conjI exI [of _ j])
qed

text \<open>
  The claim as it was stated fails: in the run
  \<^verbatim>\<open>--no-menu --yes --force --tasks ssh,zsh\<close> the body of the ssh task returns and
  its marker is written, then the body of the zsh task raises, and the run ends with
  that exception. Printing apart, the run calls the two bodies, writes the marker of
  the ssh task and closes the log, and that is all: no journal is written, and the
  state file does not exist afterwards.
\<close>

theorem journal_on_failure_counterexample:
  "fst (main example_env (example_args\<lparr>args_tasks := Some ''ssh,zsh'', args_force := True\<rparr>)
         example_world)
     = Inl (RuntimeError ''Command failed with exit code 100: sudo -- apt update'')
   \<and> filter (\<lambda>e. \<forall>t. e \<noteq> Print t)
        (trace (snd (main example_env
           (example_args\<lparr>args_tasks := Some ''ssh,zsh'', args_force := True\<rparr>)
           example_world)))
     = [Invoke ''ssh'',
        WriteMarker ''/root/.server_init_markers/ssh.done'' ''2026-11-04T09:00:00'',
        Invoke ''zsh'',
        CloseLog]
   \<and> fs (snd (main example_env
         (example_args\<lparr>args_tasks := Some ''ssh,zsh'', args_force := True\<rparr>)
         example_world))
        ''.server_init_state.json'' = None"
  by (simp add: eval_simps)

subsection \<open>The journal only grows\<close>

lemma main_journal_monotone:
  assumes "main ev args w = (r, w')" and "WriteJournal p j \<in> set (added w w')"
  shows "\<exists>state. fst (load_state (Some (state_path args)) w) = Inr state
            \<and> p = save_target args \<and> fs w' p = Some (JournalJson j)
            \<and> dom state \<subseteq> dom j
            \<and> (\<forall>k. state k = Some True \<longrightarrow> j k = Some True)
            \<and> (\<forall>k. j k \<noteq> state k \<longrightarrow> j k = Some True)
            \<and> {k. state k = Some True} \<subseteq> {k. j k = Some True}"
  using assms(1)
proof (cases rule: main_cases)
  case (early e)
  with assms(2) show ?thesis by auto
next
  case (loop state w1 cx options paths ts w3 res w4)
  note rt = loop(6)
  note e4 = run_tasks_events [OF rt]
  from loop(7) show ?thesis
  proof (elim disjE exE conjE)
    fix e
    assume c: "res = Inl e" "r = Inl e" "w' = emit CloseLog w4"
    have "added w w' = added w w3 @ added w3 w4 @ [CloseLog]"
      using main_added(1) [OF loop(4) rt] c(3) by simp
    with loop(5) e4 assms(2) show ?thesis by auto
  next
    fix c' summary
    assume c: "res = Inr c'" "r = Inr 0"
      "w' = print_summary summary options
              (save_state (Some (save_target args)) c' (emit CloseLog w4))"
    from main_added(2) [OF loop(4) rt, where summary = summary and opts = options
        and p = "save_target args" and c' = c'] c(3)
    obtain advice where a: "added w w' = added w w3 @ added w3 w4
               @ [CloseLog, WriteJournal (save_target args) c', Print summary, Print advice]"
      by auto
    with loop(5) e4 assms(2) have pj: "p = save_target args" "j = c'" by auto
    have f: "fs w' p = Some (JournalJson j)"
      using c(3) pj
      by (simp add: save_state_def emit_def write_file_def print_summary_def print_def)
    from rt c(1) have
      rt': "run_tasks ev args cx options paths ts (Map.empty ++ state) w3 = (Inr c', w4)"
      by simp
    have step: "j k = state k \<or> j k = Some True" for k
      using run_tasks_journal [OF rt', of k] pj by simp
    have d: "dom state \<subseteq> dom j"
    proof
      fix k
      assume "k \<in> dom state"
      with step [of k] show "k \<in> dom j" by auto
    qed
    have t: "\<forall>k. state k = Some True \<longrightarrow> j k = Some True"
    proof (intro allI impI)
      fix k
      assume "state k = Some True"
      with step [of k] show "j k = Some True" by auto
    qed
    have n: "\<forall>k. j k \<noteq> state k \<longrightarrow> j k = Some True"
    proof (intro allI impI)
      fix k
      assume "j k \<noteq> state k"
      with step [of k] show "j k = Some True" by auto
    qed
    from t have s: "{k. state k = Some True} \<subseteq> {k. j k = Some True}" by auto
    from loop(1) have "fst (load_state (Some (state_path args)) w) = Inr state" by simp
    with pj(1) f d t n s show ?thesis by (intro exI [of _ state] conjI)
  qed
qed

text \<open>
  Claim C10. The journal is monotone from load to save: whenever a run of \<open>main\<close>
  saves a journal, the resume state was loaded, every key of the loaded state is a key
  of the saved journal, every entry that was true is still true, every entry that
  differs from the loaded one (changed or new) is true, and so the set of keys mapped
  to true has not shrunk. Within the loop, an iteration either leaves the journal as
  it is or sets the entry of its task to true.
\<close>

theorem journal_monotone:
  assumes "main ev args w = (r, w')" and "WriteJournal p j \<in> set (added w w')"
  shows "(\<exists>state. fst (load_state (Some (state_path args)) w) = Inr state
            \<and> p = save_target args \<and> fs w' p = Some (JournalJson j)
            \<and> dom state \<subseteq> dom j
            \<and> (\<forall>k. state k = Some True \<longrightarrow> j k = Some True)
            \<and> (\<forall>k. j k \<noteq> state k \<longrightarrow> j k = Some True)
            \<and> {k. state k = Some True} \<subseteq> {k. j k = Some True})
     \<and> (\<forall>cx options paths t c w0 c' w1.
           run_task ev args cx options paths t c w0 = (Inr c', w1)
           \<longrightarrow> c' = c \<or> c' = c(key t \<mapsto> True))"
  using main_journal_monotone [OF assms] run_task_journal by blast

text \<open>A dry run of the git task over a state file that holds a true entry for the
  os task and a false one for the ssh task: a journal is saved; the os task is still
  true in it and the ssh task is still a key of it.\<close>

theorem journal_monotone_witness:
  "(\<exists>j. WriteJournal ''.server_init_state.json'' j
          \<in> set (added
               (example_world\<lparr>fs := [''.server_init_state.json''
                   \<mapsto> JournalJson [''os'' \<mapsto> True, ''ssh'' \<mapsto> False]]\<rparr>)
               (snd (main example_env example_args
                 (example_world\<lparr>fs := [''.server_init_state.json''
                   \<mapsto> JournalJson [''os'' \<mapsto> True, ''ssh'' \<mapsto> False]]\<rparr>))))
        \<and> j ''os'' = Some True \<and> ''ssh'' \<in> dom j)"
proof -
  let ?w = "example_world\<lparr>fs := [''.server_init_state.json''
                   \<mapsto> JournalJson [''os'' \<mapsto> True, ''ssh'' \<mapsto> False]]\<rparr>"
  let ?m = "main example_env example_args ?w"
  have h: "?m = (fst ?m, snd ?m)" by simp
  have "\<exists>j. WriteJournal ''.server_init_state.json'' j \<in> set (added ?w (snd ?m))"
    by (simp add: eval_simps)
  then obtain j where
    e: "WriteJournal ''.server_init_state.json'' j \<in> set (added ?w (snd ?m))" ..
  from journal_monotone [OF h e, THEN conjunct1] obtain state where
    l: "fst (load_state (Some (state_path example_args)) ?w) = Inr state" and
    d: "dom state \<subseteq> dom j" and
    t: "\<forall>k. state k = Some True \<longrightarrow> j k = Some True"
    by blast
  have "fst (load_state (Some (state_path example_args)) ?w)
          = Inr [''os'' \<mapsto> True, ''ssh'' \<mapsto> False]"
    by (simp add: eval_simps)
  with l have s: "state = [''os'' \<mapsto> True, ''ssh'' \<mapsto> False]" by simp
  from t s have "j ''os'' = Some True" by simp
  moreover from d s have "''ssh'' \<in> dom j" by auto
  ultimately show ?thesis using e by (intro exI [of _ j] conjI)
qed

subsection \<open>Validating an explicit task list\<close>

lemma traverse_registry:
  assumes "\<forall>token\<in>set tokens. TASK_INDEX_BY_KEY token \<noteq> None"
  shows "\<exists>indices.
           traverse (\<lambda>token. case TASK_INDEX_BY_KEY token of
                               None \<Rightarrow> Inl KeyError
                             | Some i \<Rightarrow> Inr i) tokens = Inr indices
         \<and> map TASK_INDEX_BY_KEY tokens = map Some indices"
  using assms by (induction tokens) auto

lemma registry_index_range:
  "TASK_INDEX_BY_KEY token = Some i \<Longrightarrow> 0 \<le> i \<and> i < 5"
  by (auto simp: TASK_INDEX_BY_KEY_def TASKS_def split: if_splits)

lemma main_fails_before_loop:
  assumes "\<And>cx. resolve_tasks args cx (args_yes args) (\<not> args_no_menu args) ev = Inl e0"
    and m: "main ev args w = (r, w')"
  shows "(\<exists>e. r = Inl e) \<and> fs w' = fs w \<and> set (added w w') \<subseteq> range Print
     \<and> (\<forall>state cx. fst (load_state (Some (state_path args)) w) = Inr state
           \<and> resolve_context args (args_yes args) (\<not> args_no_menu args) ev = Inr cx
           \<longrightarrow> r = Inl e0)"
proof -
  obtain r0 w1 where l: "load_state (Some (state_path args)) w = (r0, w1)"
    by (cases "load_state (Some (state_path args)) w")
  note lw = load_state_world [OF l]
  from m l assms(1) have "(w' = w1 \<or> (\<exists>t1 t2. w' = print t2 (print t1 w1)))
     \<and> (\<exists>e. r = Inl e)
     \<and> (\<forall>state cx. r0 = Inr state
           \<and> resolve_context args (args_yes args) (\<not> args_no_menu args) ev = Inr cx
           \<longrightarrow> r = Inl e0)"
    by (auto simp: main_def Let_def split: sum.splits)
  with lw l show ?thesis by (auto simp: print_def emit_def added_def prefix_def)
qed

lemma explicit_tasks:
  assumes "args_tasks args = Some s" and "s \<noteq> []"
  shows "((\<exists>token\<in>set (requested_tokens s). TASK_INDEX_BY_KEY token = None) \<longrightarrow>
            resolve_tasks args context ac um ev
              = Inl (SystemExit (''Invalid task identifiers: ''
                   @ py_join '', '' (filter (\<lambda>token. TASK_INDEX_BY_KEY token = None)
                                       (requested_tokens s))))
          \<and> (\<exists>e. fst (main ev args w) = Inl e)
          \<and> fs (snd (main ev args w)) = fs w
          \<and> (\<forall>k. Invoke k \<notin> set (added w (snd (main ev args w)))))
     \<and> ((\<forall>token\<in>set (requested_tokens s). TASK_INDEX_BY_KEY token \<noteq> None)
          \<and> (args_no_menu args \<or> \<not> um \<or> ac) \<longrightarrow>
            (\<exists>indices. resolve_tasks args context ac um ev = Inr indices
               \<and> map TASK_INDEX_BY_KEY (requested_tokens s) = map Some indices
               \<and> (\<forall>i\<in>set indices. 0 \<le> i \<and> i < 5)))"
proof (intro conjI impI)
  assume bad: "\<exists>token\<in>set (requested_tokens s). TASK_INDEX_BY_KEY token = None"
  then have ne: "filter (\<lambda>token. TASK_INDEX_BY_KEY token = None) (requested_tokens s) \<noteq> []"
    by (simp add: filter_empty_conv)
  have r: "resolve_tasks args cx ac' um' ev
              = Inl (SystemExit (''Invalid task identifiers: ''
                   @ py_join '', '' (filter (\<lambda>token. TASK_INDEX_BY_KEY token = None)
                                       (requested_tokens s))))" for cx ac' um'
    using assms ne by (simp add: resolve_tasks_def Let_def)
  from r show "resolve_tasks args context ac um ev
              = Inl (SystemExit (''Invalid task identifiers: ''
                   @ py_join '', '' (filter (\<lambda>token. TASK_INDEX_BY_KEY token = None)
                                       (requested_tokens s))))" .
  have m: "main ev args w = (fst (main ev args w), snd (main ev args w))" by simp
  note f = main_fails_before_loop [OF r m]
  from f show "\<exists>e. fst (main ev args w) = Inl e" by simp
  from f show "fs (snd (main ev args w)) = fs w" by simp
  from f show "\<forall>k. Invoke k \<notin> set (added w (snd (main ev args w)))" by auto
next
  assume ok: "(\<forall>token\<in>set (requested_tokens s). TASK_INDEX_BY_KEY token \<noteq> None)
          \<and> (args_no_menu args \<or> \<not> um \<or> ac)"
  then have e: "filter (\<lambda>token. TASK_INDEX_BY_KEY token = None) (requested_tokens s) = []"
    by (simp add: filter_empty_conv)
  from ok traverse_registry [of "requested_tokens s"] obtain indices where
    t: "traverse (\<lambda>token. case TASK_INDEX_BY_KEY token of
                               None \<Rightarrow> Inl KeyError
                             | Some i \<Rightarrow> Inr i) (requested_tokens s) = Inr indices" and
    i: "map TASK_INDEX_BY_KEY (requested_tokens s) = map Some indices"
    by blast
  have g: "given (args_tasks args)" using assms by (simp add: given_def)
  have r: "resolve_tasks args context ac um ev = Inr indices"
    using assms e t ok g by (auto simp: resolve_tasks_def Let_def)
  have rng: "\<forall>i\<in>set indices. 0 \<le> i \<and> i < 5"
  proof
    fix x
    assume "x \<in> set indices"
    then have "Some x \<in> set (map TASK_INDEX_BY_KEY (requested_tokens s))"
      unfolding i by simp
    then obtain token where "TASK_INDEX_BY_KEY token = Some x" by auto
    then show "0 \<le> x \<and> x < 5" by (rule registry_index_range)
  qed
  from r i rng show "\<exists>indices. resolve_tasks args context ac um ev = Inr indices
               \<and> map TASK_INDEX_BY_KEY (requested_tokens s) = map Some indices
               \<and> (\<forall>i\<in>set indices. 0 \<le> i \<and> i < 5)"
    by blast
qed

lemma journal_keys_kept:
  assumes f: "fs w (state_path args) = Some (JournalJson st)"
    and m: "main ev args w = (Inr n, w')"
  shows "\<exists>j. fs w' (save_target args) = Some (JournalJson j) \<and> dom st \<subseteq> dom j
           \<and> (\<forall>k. st k = Some True \<longrightarrow> j k = Some True)"
proof -
  from main_journal [OF m] obtain j before after where
    l: "added w w' = before @ [CloseLog, WriteJournal (save_target args) j] @ after" and
    t: "fs w' (save_target args) = Some (JournalJson j)"
    by auto
  from l have "WriteJournal (save_target args) j \<in> set (added w w')"
    by simp
  from main_journal_monotone [OF m this] obtain state where
    ls: "fst (load_state (Some (state_path args)) w) = Inr state" and
    d: "dom state \<subseteq> dom j" and
    k: "\<forall>k. state k = Some True \<longrightarrow> j k = Some True"
    by blast
  from f ls have "state = st" by (simp add: load_state_def)
  with t d k show ?thesis by blast
qed

text \<open>
  Claim C7, as amended. When an explicit comma-separated task list is given, every
  token (stripped, in lower case, empty ones dropped) is looked up in the registry.
  If some token is unknown, \<^verbatim>\<open>resolve_tasks\<close> fails with one \<^verbatim>\<open>SystemExit\<close> whose
  message names all the unknown tokens, in their order, and \<open>main\<close> ends with an
  exception before any task body is called and without a change to the file store.
  If every token is known and no menu is shown, the result is the list of their
  registry indices, in the order given. Keys of the loaded journal are not looked
  up in the registry: when the state file holds a journal and the run ends normally,
  every key of that journal, known or not, is a key of the saved journal.
\<close>

theorem explicit_task_list_validated:
  "(args_tasks args = Some s \<and> s \<noteq> [] \<longrightarrow>
      ((\<exists>token\<in>set (requested_tokens s). TASK_INDEX_BY_KEY token = None) \<longrightarrow>
                resolve_tasks args cx ac um ev
                  = Inl (SystemExit (''Invalid task identifiers: ''
                       @ py_join '', '' (filter (\<lambda>token. TASK_INDEX_BY_KEY token = None)
                                           (requested_tokens s))))
              \<and> (\<exists>e. fst (main ev args w) = Inl e)
              \<and> fs (snd (main ev args w)) = fs w
              \<and> (\<forall>k. Invoke k \<notin> set (added w (snd (main ev args w)))))
         \<and> ((\<forall>token\<in>set (requested_tokens s). TASK_INDEX_BY_KEY token \<noteq> None)
              \<and> (args_no_menu args \<or> \<not> um \<or> ac) \<longrightarrow>
                (\<exists>indices. resolve_tasks args cx ac um ev = Inr indices
                   \<and> map TASK_INDEX_BY_KEY (requested_tokens s) = map Some indices
                   \<and> (\<forall>i\<in>set indices. 0 \<le> i \<and> i < 5))))
   \<and> (fs w (state_path args) = Some (JournalJson st) \<and> main ev args w = (Inr n, w') \<longrightarrow>
        (\<exists>j. fs w' (save_target args) = Some (JournalJson j) \<and> dom st \<subseteq> dom j
             \<and> (\<forall>k. st k = Some True \<longrightarrow> j k = Some True)))"
  (is "(?explicit \<longrightarrow> ?validated) \<and> (?resumed \<longrightarrow> ?kept)")
proof (rule conjI)
  show "?explicit \<longrightarrow> ?validated"
  proof (rule impI)
    assume ?explicit
    then have "args_tasks args = Some s" and "s \<noteq> []" by simp_all
    then show ?validated by (rule explicit_tasks)
  qed
  show "?resumed \<longrightarrow> ?kept"
  proof (rule impI)
    assume ?resumed
    then have "fs w (state_path args) = Some (JournalJson st)"
      and "main ev args w = (Inr n, w')" by simp_all
    then show ?kept by (rule journal_keys_kept)
  qed
qed

text \<open>The list \<^verbatim>\<open>git, Nope,os,bogus\<close>: both unknown tokens are named, and the run
  ends before any body is called.\<close>

theorem explicit_task_list_validated_witness:
  "args_tasks (example_args\<lparr>args_tasks := Some ''git, Nope,os,bogus''\<rparr>)
     = Some ''git, Nope,os,bogus''
   \<and> requested_tokens ''git, Nope,os,bogus'' = [''git'', ''nope'', ''os'', ''bogus'']
   \<and> resolve_tasks (example_args\<lparr>args_tasks := Some ''git, Nope,os,bogus''\<rparr>)
        ROOT True False example_env
       = Inl (SystemExit ''Invalid task identifiers: nope, bogus'')
   \<and> (\<exists>e. fst (main example_env (example_args\<lparr>args_tasks := Some ''git, Nope,os,bogus''\<rparr>)
                example_world) = Inl e)
   \<and> Invoke ''git'' \<notin> set (added example_world
        (snd (main example_env (example_args\<lparr>args_tasks := Some ''git, Nope,os,bogus''\<rparr>)
                example_world)))"
proof -
  let ?s = "''git, Nope,os,bogus''"
  let ?args = "example_args\<lparr>args_tasks := Some ?s\<rparr>"
  have h1: "args_tasks ?args = Some ?s" by simp
  have h2: "?s \<noteq> []" by simp
  have q: "requested_tokens ?s = [''git'', ''nope'', ''os'', ''bogus'']"
    by code_simp
  have bad: "\<exists>token\<in>set (requested_tokens ?s). TASK_INDEX_BY_KEY token = None"
    unfolding q by (simp add: TASK_INDEX_BY_KEY_def TASKS_def)
  have f: "filter (\<lambda>token. TASK_INDEX_BY_KEY token = None) (requested_tokens ?s)
             = [''nope'', ''bogus'']"
    unfolding q by (simp add: TASK_INDEX_BY_KEY_def TASKS_def)
  note t = explicit_task_list_validated [where args = ?args and s = ?s and cx = ROOT
      and ac = True and um = False and ev = example_env and w = example_world,
      THEN conjunct1, rule_format, OF conjI [OF h1 h2], THEN conjunct1, rule_format, OF bad]
  from t have "resolve_tasks ?args ROOT True False example_env
       = Inl (SystemExit ''Invalid task identifiers: nope, bogus'')"
    unfolding f by simp
  moreover from t have "\<exists>e. fst (main example_env ?args example_world) = Inl e"
    by simp
  moreover from t have "Invoke ''git''
      \<notin> set (added example_world (snd (main example_env ?args example_world)))"
    by simp
  ultimately show ?thesis using h1 q by (intro conjI)
qed

text \<open>
  The claim as it was stated fails on the journal: a state file whose journal holds
  the key \<^verbatim>\<open>bogus\<close>, which is not in the registry, is loaded without complaint, the
  run ends with status 0, and the key is written back with the saved journal.
\<close>

theorem journal_key_unvalidated_counterexample:
  "TASK_INDEX_BY_KEY ''bogus'' = None
   \<and> fst (main example_env example_args
        (example_world\<lparr>fs := [''.server_init_state.json''
            \<mapsto> JournalJson [''bogus'' \<mapsto> True]]\<rparr>)) = Inr 0
   \<and> (\<exists>j. fs (snd (main example_env example_args
               (example_world\<lparr>fs := [''.server_init_state.json''
                   \<mapsto> JournalJson [''bogus'' \<mapsto> True]]\<rparr>)))
             ''.server_init_state.json'' = Some (JournalJson j)
          \<and> j ''bogus'' = Some True)"
  by (simp add: eval_simps)

subsection \<open>The command runner logs before it executes\<close>

lemma env_keys_of_set:
  "env_keys_of e
     = sorted_list_of_set (case e of None \<Rightarrow> {} | Some items \<Rightarrow> fst ` set items)"
  by (cases e) (simp_all add: env_keys_of_def sorted_list_of_set_sort_remdups flip: set_map)

lemma run_allowed:
  assumes "\<not> sudo \<or> runner_sudo_allowed self"
  shows "snd (run self h command sudo cwd e check)
     = LogWrite ([CHR 0x0A] @ ''['' @ timestamp h @ ''] CMD: ''
           @ shlex_join (if sudo then [''sudo'', ''--''] @ command else command)
           @ [CHR 0x0A])
       # LogWrite (''cwd='' @ (case cwd of Some d \<Rightarrow> d | None \<Rightarrow> getcwd h)
           @ '' sudo='' @ py_str_bool sudo
           @ '' env_overrides='' @ py_str_list (env_keys_of e) @ [CHR 0x0A])
       # drop 2 (snd (run self h command sudo cwd e check))"
proof -
  from assms have g: "\<not> (sudo \<and> \<not> runner_sudo_allowed self)" by blast
  show ?thesis
    unfolding run_def Let_def if_not_P [OF g]
    by (simp split: sum.splits)
qed

lemma run_dry:
  assumes "\<not> sudo \<or> runner_sudo_allowed self" and "runner_dry_run self"
  shows "drop 2 (snd (run self h command sudo cwd e check))
           = [LogWrite (''(dry-run) Command not executed.'' @ [CHR 0x0A])]"
proof -
  from assms have g: "\<not> (sudo \<and> \<not> runner_sudo_allowed self)" by blast
  show ?thesis
    unfolding run_def Let_def if_not_P [OF g] if_P [OF assms(2)] by simp
qed

lemma run_logged:
  assumes "\<not> sudo \<or> runner_sudo_allowed self"
  shows "(\<exists>rest. snd (run self h command sudo cwd e check)
            = LogWrite ([CHR 0x0A] @ ''['' @ timestamp h @ ''] CMD: ''
                  @ shlex_join (if sudo then [''sudo'', ''--''] @ command else command)
                  @ [CHR 0x0A])
              # LogWrite (''cwd='' @ (case cwd of Some d \<Rightarrow> d | None \<Rightarrow> getcwd h)
                  @ '' sudo='' @ py_str_bool sudo
                  @ '' env_overrides='' @ py_str_list (env_keys_of e) @ [CHR 0x0A])
              # rest
          \<and> (runner_dry_run self \<longrightarrow> (\<forall>c d i. Spawn c d i \<notin> set rest)))
     \<and> sorted (env_keys_of e) \<and> distinct (env_keys_of e)
     \<and> set (env_keys_of e) = (case e of None \<Rightarrow> {} | Some items \<Rightarrow> fst ` set items)
     \<and> (\<forall>e' :: (string \<times> string) list option.
            (case e' of None \<Rightarrow> {} | Some items \<Rightarrow> fst ` set items)
                = (case e of None \<Rightarrow> {} | Some items \<Rightarrow> fst ` set items)
            \<longrightarrow> take 2 (snd (run self h command sudo cwd e' check))
                = take 2 (snd (run self h command sudo cwd e check)))"
proof (intro conjI)
  let ?rest = "drop 2 (snd (run self h command sudo cwd e check))"
  have "runner_dry_run self \<longrightarrow> (\<forall>c d i. Spawn c d i \<notin> set ?rest)"
    using run_dry [OF assms] by simp
  with run_allowed [OF assms, of h command cwd e check]
  show "\<exists>rest. snd (run self h command sudo cwd e check)
            = LogWrite ([CHR 0x0A] @ ''['' @ timestamp h @ ''] CMD: ''
                  @ shlex_join (if sudo then [''sudo'', ''--''] @ command else command)
                  @ [CHR 0x0A])
              # LogWrite (''cwd='' @ (case cwd of Some d \<Rightarrow> d | None \<Rightarrow> getcwd h)
                  @ '' sudo='' @ py_str_bool sudo
                  @ '' env_overrides='' @ py_str_list (env_keys_of e) @ [CHR 0x0A])
              # rest
          \<and> (runner_dry_run self \<longrightarrow> (\<forall>c d i. Spawn c d i \<notin> set rest))"
    by (intro exI [of _ ?rest] conjI)
  have fin: "finite (case e of None \<Rightarrow> {} | Some items \<Rightarrow> fst ` set items)"
    by (cases e) simp_all
  show "sorted (env_keys_of e)" and "distinct (env_keys_of e)"
    unfolding env_keys_of_set by simp_all
  show "set (env_keys_of e) = (case e of None \<Rightarrow> {} | Some items \<Rightarrow> fst ` set items)"
    unfolding env_keys_of_set using fin by simp
  show "\<forall>e' :: (string \<times> string) list option.
            (case e' of None \<Rightarrow> {} | Some items \<Rightarrow> fst ` set items)
                = (case e of None \<Rightarrow> {} | Some items \<Rightarrow> fst ` set items)
            \<longrightarrow> take 2 (snd (run self h command sudo cwd e' check))
                = take 2 (snd (run self h command sudo cwd e check))"
  proof (intro allI impI)
    fix e' :: "(string \<times> string) list option"
    assume "(case e' of None \<Rightarrow> {} | Some items \<Rightarrow> fst ` set items)
                = (case e of None \<Rightarrow> {} | Some items \<Rightarrow> fst ` set items)"
    then have k: "env_keys_of e' = env_keys_of e"
      by (simp only: env_keys_of_set)
    show "take 2 (snd (run self h command sudo cwd e' check))
                = take 2 (snd (run self h command sudo cwd e check))"
      by (subst run_allowed [OF assms, of h command cwd e' check],
          subst run_allowed [OF assms, of h command cwd e check])
        (simp add: k)
  qed
qed

text \<open>
  Claim C8, as amended. Every call of \<^verbatim>\<open>CommandRunner.run\<close> that the sudo guard lets
  through (sudo is not asked for, or the runner may use it) first writes a log record
  of two texts: the time and the shell-quoted command line (with \<^verbatim>\<open>sudo --\<close> in front
  when sudo is asked for), then the working directory, the sudo flag and the sorted
  names of the overridden environment variables. Whatever else the call does, starting
  the process included, comes after the record; in a dry run no process is started.
  The record depends on the overrides through their names only: two calls that
  differ in the values alone write the same record. A call that asks for sudo when
  the runner may not use it raises before anything is written.
\<close>

theorem run_logs_before_executing:
  "(\<not> sudo \<or> runner_sudo_allowed self \<longrightarrow>
      (\<exists>rest. snd (run self h command sudo cwd e check)
                = LogWrite ([CHR 0x0A] @ ''['' @ timestamp h @ ''] CMD: ''
                      @ shlex_join (if sudo then [''sudo'', ''--''] @ command else command)
                      @ [CHR 0x0A])
                  # LogWrite (''cwd='' @ (case cwd of Some d \<Rightarrow> d | None \<Rightarrow> getcwd h)
                      @ '' sudo='' @ py_str_bool sudo
                      @ '' env_overrides='' @ py_str_list (env_keys_of e) @ [CHR 0x0A])
                  # rest
              \<and> (runner_dry_run self \<longrightarrow> (\<forall>c d i. Spawn c d i \<notin> set rest)))
         \<and> sorted (env_keys_of e) \<and> distinct (env_keys_of e)
         \<and> set (env_keys_of e) = (case e of None \<Rightarrow> {} | Some items \<Rightarrow> fst ` set items)
         \<and> (\<forall>e' :: (string \<times> string) list option.
                (case e' of None \<Rightarrow> {} | Some items \<Rightarrow> fst ` set items)
                    = (case e of None \<Rightarrow> {} | Some items \<Rightarrow> fst ` set items)
                \<longrightarrow> take 2 (snd (run self h command sudo cwd e' check))
                    = take 2 (snd (run self h command sudo cwd e check))))
   \<and> (sudo \<and> \<not> runner_sudo_allowed self \<longrightarrow>
        run self h command sudo cwd e check
          = (Inl (RuntimeError ''Attempted to use sudo without permission''), []))"
  (is "(?allowed \<longrightarrow> ?logged) \<and> (?refused \<longrightarrow> ?raised)")
proof (rule conjI)
  show "?allowed \<longrightarrow> ?logged"
  proof (rule impI)
    assume ?allowed
    then show ?logged by (rule run_logged)
  qed
  show "?refused \<longrightarrow> ?raised"
    by (simp add: run_def)
qed

text \<open>A call with sudo, allowed, that overrides two variables: the record names the
  command line and the variables \<^verbatim>\<open>API\<close> and \<^verbatim>\<open>TOKEN\<close>, sorted, and not their
  values.\<close>

theorem run_logs_before_executing_witness:
  "runner_sudo_allowed \<lparr>log_file = ''run.log'', runner_dry_run = False,
                         runner_sudo_allowed = True\<rparr>
   \<and> take 2 (snd (run \<lparr>log_file = ''run.log'', runner_dry_run = False,
                         runner_sudo_allowed = True\<rparr>
          example_host [''apt'', ''install'', ''a b''] True None
          (Some [(''TOKEN'', ''s3cret''), (''API'', ''k'')]) True))
     = [LogWrite ([CHR 0x0A] @ ''[2026-11-04 09:00:00] CMD: sudo -- apt install ''
                    @ [CHR 0x27] @ ''a b'' @ [CHR 0x27] @ [CHR 0x0A]),
        LogWrite (''cwd=/srv sudo=True env_overrides=['' @ [CHR 0x27] @ ''API''
                    @ [CHR 0x27] @ '', '' @ [CHR 0x27] @ ''TOKEN'' @ [CHR 0x27] @ '']''
                    @ [CHR 0x0A])]"
proof -
  let ?self = "\<lparr>log_file = ''run.log'', runner_dry_run = False, runner_sudo_allowed = True\<rparr>"
  let ?e = "Some [(''TOKEN'', ''s3cret''), (''API'', ''k'')]"
  have h: "\<not> True \<or> runner_sudo_allowed ?self" by simp
  have k: "env_keys_of ?e = [''API'', ''TOKEN'']" by code_simp
  have j: "shlex_join [''sudo'', ''--'', ''apt'', ''install'', ''a b'']
             = ''sudo -- apt install '' @ [CHR 0x27] @ ''a b'' @ [CHR 0x27]"
    by code_simp
  have l: "py_str_list [''API'', ''TOKEN'']
             = ''['' @ [CHR 0x27] @ ''API'' @ [CHR 0x27] @ '', '' @ [CHR 0x27]
               @ ''TOKEN'' @ [CHR 0x27] @ '']''"
    by code_simp
  from run_logs_before_executing [where sudo = True and self = ?self and h = example_host
      and command = "[''apt'', ''install'', ''a b'']" and cwd = None and e = ?e
      and check = True, THEN conjunct1, rule_format, OF h]
  obtain rest where
    "snd (run ?self example_host [''apt'', ''install'', ''a b''] True None ?e True)
       = LogWrite ([CHR 0x0A] @ ''['' @ timestamp example_host @ ''] CMD: ''
             @ shlex_join (if True then [''sudo'', ''--''] @ [''apt'', ''install'', ''a b'']
                           else [''apt'', ''install'', ''a b''])
             @ [CHR 0x0A])
         # LogWrite (''cwd='' @ (case None of Some d \<Rightarrow> d | None \<Rightarrow> getcwd example_host)
             @ '' sudo='' @ py_str_bool True
             @ '' env_overrides='' @ py_str_list (env_keys_of ?e) @ [CHR 0x0A])
         # rest"
    by (elim conjE exE)
  then show ?thesis
    by (simp add: k j l example_host_def py_str_bool_def)
qed

text \<open>
  The claim as it was stated fails for a call that asks for sudo when the runner may
  not use it: the call raises at once, and nothing is written to the log.
\<close>

theorem run_sudo_refused_counterexample:
  "run \<lparr>log_file = ''run.log'', runner_dry_run = True, runner_sudo_allowed = False\<rparr>
      example_host [''apt'', ''update''] True None None True
     = (Inl (RuntimeError ''Attempted to use sudo without permission''), [])"
  by (simp add: run_def)

subsection \<open>Loading the resume state\<close>

text \<open>
  Claim C9. What \<^verbatim>\<open>load_state\<close> does, by what the path names. No path, a path that
  names nothing, and a file whose text is not JSON all give the empty journal, the
  last with a printed warning; a file holding a journal gives that journal. The claim
  that loading never fails does not hold on the code: for a corrupt file whose bytes
  are not UTF-8, \<^verbatim>\<open>read_text\<close> raises \<^verbatim>\<open>UnicodeDecodeError\<close>, which the handler for
  \<^verbatim>\<open>JSONDecodeError\<close> does not catch, so the exception leaves \<^verbatim>\<open>load_state\<close>.
\<close>

theorem load_state_by_file:
  "load_state None w = (Inr Map.empty, w)
   \<and> (fs w p = None \<longrightarrow> load_state (Some p) w = (Inr Map.empty, w))
   \<and> (fs w p = Some (NotJson s) \<longrightarrow>
         load_state (Some p) w
           = (Inr Map.empty,
              print (''Failed to parse state file at '' @ p @ ''; starting fresh.'') w))
   \<and> (fs w p = Some (JournalJson j) \<longrightarrow> load_state (Some p) w = (Inr j, w))
   \<and> (fs w p = Some Undecodable \<longrightarrow> load_state (Some p) w = (Inl UnicodeDecodeError, w))"
  by (simp add: load_state_def)

text \<open>A state file whose bytes are not UTF-8: \<^verbatim>\<open>load_state\<close> raises, and so does the
  run of \<open>main\<close> that resumes from it, before anything else happens.\<close>

theorem load_state_by_file_witness:
  "fs (example_world\<lparr>fs := [''state.json'' \<mapsto> Undecodable]\<rparr>) ''state.json''
     = Some Undecodable
   \<and> fst (load_state (Some ''state.json'')
        (example_world\<lparr>fs := [''state.json'' \<mapsto> Undecodable]\<rparr>))
     = Inl UnicodeDecodeError
   \<and> fst (main example_env (example_args\<lparr>args_resume_state := Some ''state.json''\<rparr>)
        (example_world\<lparr>fs := [''state.json'' \<mapsto> Undecodable]\<rparr>))
     = Inl UnicodeDecodeError
   \<and> trace (snd (main example_env (example_args\<lparr>args_resume_state := Some ''state.json''\<rparr>)
        (example_world\<lparr>fs := [''state.json'' \<mapsto> Undecodable]\<rparr>))) = []"
proof -
  let ?w = "example_world\<lparr>fs := [''state.json'' \<mapsto> Undecodable]\<rparr>"
  let ?args = "example_args\<lparr>args_resume_state := Some ''state.json''\<rparr>"
  have h: "fs ?w ''state.json'' = Some Undecodable" by simp
  from load_state_by_file [of ?w "''state.json''"] h
  have l: "load_state (Some ''state.json'') ?w = (Inl UnicodeDecodeError, ?w)"
    by blast
  have p: "state_path ?args = ''state.json''"
    by (simp add: state_path_def)
  from l p have m: "main example_env ?args ?w = (Inl UnicodeDecodeError, ?w)"
    by (simp add: main_def)
  from h l m show ?thesis
    by (simp add: example_world_def)
qed

end
